theory Spec2Isabelle
  imports Main "HOL-Library.Multiset"
begin

section \<open>PDFToAudio: a shallow embedding of \<open>main.py\<close>\<close>

text \<open>
  The program reads PDF documents, extracts their text (with an OCR fall-back per page),
  writes the text to a file and has a remote service synthesise an audio file, retrying
  with exponential back-off when the service answers with a rate limit.

  What the Python does beyond returning values is explicit here:
  \<^item> the file system, the log of calls made to the synthesis service and the log of
    \<open>time.sleep\<close> calls form the record \<open>world\<close>, passed in and returned;
  \<^item> an exception is the \<open>Inl\<close> side of a sum;
  \<^item> the libraries (pdfplumber, PIL, pytesseract, gTTS, md5, the directory listing, the
    operating system's answer to opening a file for writing) are the fields of the record
    \<open>env\<close>: nothing is assumed of what they answer.
  Progress notices (\<open>print\<close>) and the wall-clock measurement of \<open>process_pdf\<close> are
  left out: they change neither files nor control flow.
\<close>

subsection \<open>Strings, paths, exceptions\<close>

text \<open>
  A Python \<open>str\<close> holding document text is a list of Unicode code points; file names,
  language codes and exception messages are \<open>string\<close>s. A path is the list of its
  parts, as \<open>pathlib.PurePosixPath\<close> keeps them (the root, when there is one, is the
  first part).
\<close>

type_synonym pystr = "nat list"
type_synonym audio = "nat list"
type_synonym path = "string list"

datatype exn =
    GTTSError string
  | RuntimeError string
  | ValueError string
  | OverflowError string
  | UnicodeEncodeError string
  | OtherException string

datatype file_data = TextData pystr | AudioData audio

text \<open>
  \<open>folder / name\<close>: the name is cut at its separators, empty segments and \<open>.\<close> are
  dropped, and a name that starts with a separator replaces the folder (two leading
  separators, and only two, make the root \<open>//\<close>).
\<close>

fun segments :: "string \<Rightarrow> string \<Rightarrow> string list" where
  "segments cur [] = [cur]"
| "segments cur (c # cs) =
     (if c = CHR ''/'' then cur # segments [] cs else segments (cur @ [c]) cs)"

definition path_parts :: "string \<Rightarrow> string list" where
  "path_parts name = filter (\<lambda>s. s \<noteq> [] \<and> s \<noteq> ''.'') (segments [] name)"

definition path_root :: "string \<Rightarrow> string" where
  "path_root name = (if take 2 name = ''//'' \<and> take 3 name \<noteq> ''///'' then ''//'' else ''/'')"

definition joinpath :: "path \<Rightarrow> string \<Rightarrow> path" where
  "joinpath folder name =
     (if take 1 name = ''/'' then path_root name # path_parts name
      else folder @ path_parts name)"

definition path_name :: "path \<Rightarrow> string" where
  "path_name p = (if p = [] \<or> last p = ''/'' \<or> last p = ''//'' then [] else last p)"

definition rfind_dot :: "string \<Rightarrow> nat option" where
  "rfind_dot name =
     (if CHR ''.'' \<in> set name
      then Some (length name - 1 - length (takeWhile (\<lambda>c. c \<noteq> CHR ''.'') (rev name)))
      else None)"

text \<open>\<open>PurePath.stem\<close>: the name up to its last dot, unless that dot is first or last.\<close>

definition path_stem :: "path \<Rightarrow> string" where
  "path_stem p =
     (let name = path_name p in
      case rfind_dot name of
        None \<Rightarrow> name
      | Some i \<Rightarrow> if 0 < i \<and> i + 1 < length name then take i name else name)"

text \<open>\<open>needle in s\<close> on strings.\<close>

fun str_contains :: "string \<Rightarrow> string \<Rightarrow> bool" where
  "str_contains needle [] = (needle = [])"
| "str_contains needle (c # cs) =
     (take (length needle) (c # cs) = needle \<or> str_contains needle cs)"

text \<open>The code points \<open>str.isspace\<close> accepts, and \<open>str.strip()\<close>.\<close>

definition py_isspace :: "nat \<Rightarrow> bool" where
  "py_isspace c \<longleftrightarrow>
     (9 \<le> c \<and> c \<le> 13) \<or> (28 \<le> c \<and> c \<le> 32) \<or> c = 133 \<or> c = 160 \<or> c = 5760 \<or>
     (8192 \<le> c \<and> c \<le> 8202) \<or> c = 8232 \<or> c = 8233 \<or> c = 8239 \<or> c = 8287 \<or> c = 12288"

definition py_strip :: "pystr \<Rightarrow> pystr" where
  "py_strip t = rev (dropWhile py_isspace (rev (dropWhile py_isspace t)))"

text \<open>A surrogate code point has no UTF-8 encoding: \<open>str.encode\<close> raises on it.\<close>

definition is_surrogate :: "nat \<Rightarrow> bool" where
  "is_surrogate c \<longleftrightarrow> 55296 \<le> c \<and> c \<le> 57343"

subsection \<open>The world and the libraries\<close>

record world =
  files :: "path \<rightharpoonup> file_data"
  tts_log :: "(pystr \<times> string \<times> path) list"
  sleeps :: "int list"

text \<open>
  \<open>tts_log\<close> holds one entry per \<open>gTTS(text, lang).save(path)\<close>, in order, whether it
  succeeded or not; \<open>sleeps\<close> holds the argument of every completed \<open>time.sleep\<close>.
\<close>

record image =
  mode :: string
  pixels :: "nat list"

record page =
  extract_text :: "exn + pystr option"
  annotated :: "exn + image"

text \<open>
  How one \<open>gTTS(text, lang).save(path)\<close> ends. \<open>save\<close> opens the target for writing
  before it sends the first request, so a call that raises while requesting leaves a file
  with the bytes received so far (none when the first request fails): \<open>Raises x (Some bytes)\<close>.
  A call that raises before the file is opened (in the constructor, or in \<open>open\<close>) leaves
  nothing: \<open>Raises x None\<close>. The answer may depend on how many calls were made before, on
  the text and on the language.
\<close>

datatype tts_outcome = Saved audio | Raises exn "audio option"

record env =
  pdf_open :: "path \<Rightarrow> exn + page list"
  convert_mode :: "image \<Rightarrow> string \<Rightarrow> exn + image"
  jpeg_reopen :: "image \<Rightarrow> exn + image"
  image_to_string :: "image \<Rightarrow> string \<Rightarrow> exn + pystr"
  gtts :: "nat \<Rightarrow> pystr \<Rightarrow> string \<Rightarrow> tts_outcome"
  md5_hexdigest :: "pystr \<Rightarrow> string"
  glob_pdf :: "path \<Rightarrow> path list"
  script_directory :: path
  open_error :: "path \<Rightarrow> exn option"

text \<open>
  \<open>open_error e p\<close> is the exception \<open>open(p, "w")\<close> raises (a missing folder, a
  directory in the way, no permission), if any: folders and permissions belong to the
  environment and stay as they are while the program runs.
\<close>

definition path_exists :: "world \<Rightarrow> path \<Rightarrow> bool" where
  "path_exists w p \<longleftrightarrow> files w p \<noteq> None"

text \<open>
  \<open>time.sleep\<close> (CPython 3.11) converts whole seconds to nanoseconds in 64 bits: it
  raises \<open>OverflowError\<close> beyond 9223372036 seconds either way, and \<open>ValueError\<close> on any
  other negative argument.
\<close>

definition py_sleep :: "int \<Rightarrow> world \<Rightarrow> (exn + unit) \<times> world" where
  "py_sleep d w =
     (if d < - 9223372036 \<or> 9223372036 < d
      then (Inl (OverflowError ''timestamp too large to convert to C _PyTime_t''), w)
      else if d < 0 then (Inl (ValueError ''sleep length must be non-negative''), w)
      else (Inr (), w\<lparr>sleeps := sleeps w @ [d]\<rparr>))"

definition gtts_save :: "env \<Rightarrow> pystr \<Rightarrow> string \<Rightarrow> path \<Rightarrow> world \<Rightarrow> (exn + unit) \<times> world" where
  "gtts_save e txt lang p w =
     (let w1 = w\<lparr>tts_log := tts_log w @ [(txt, lang, p)]\<rparr> in
      case gtts e (length (tts_log w)) txt lang of
        Saved a \<Rightarrow> (Inr (), w1\<lparr>files := (files w1)(p \<mapsto> AudioData a)\<rparr>)
      | Raises x None \<Rightarrow> (Inl x, w1)
      | Raises x (Some part) \<Rightarrow> (Inl x, w1\<lparr>files := (files w1)(p \<mapsto> AudioData part)\<rparr>))"

subsection \<open>The functions of \<open>main.py\<close>\<close>

text \<open>
  \<open>open(path, "w", encoding="utf-8")\<close> creates or empties the file; \<open>write\<close> encodes the
  whole text first and raises \<open>UnicodeEncodeError\<close> on a surrogate, leaving the file
  empty.
\<close>

definition save_text_to_file :: "env \<Rightarrow> pystr \<Rightarrow> path \<Rightarrow> world \<Rightarrow> (exn + unit) \<times> world" where
  "save_text_to_file e txt output_file_path w =
     (case open_error e output_file_path of
        Some x \<Rightarrow> (Inl x, w)
      | None \<Rightarrow>
          if list_ex is_surrogate txt
          then (Inl (UnicodeEncodeError ''surrogates not allowed''),
                w\<lparr>files := (files w)(output_file_path \<mapsto> TextData [])\<rparr>)
          else (Inr (), w\<lparr>files := (files w)(output_file_path \<mapsto> TextData txt)\<rparr>))"

definition generate_cache_key :: "env \<Rightarrow> pystr \<Rightarrow> string" where
  "generate_cache_key e txt = md5_hexdigest e txt"

definition is_cached :: "string \<Rightarrow> path \<Rightarrow> world \<Rightarrow> bool" where
  "is_cached cache_key folder_path w = path_exists w (joinpath folder_path (cache_key @ ''.mp3''))"

definition rate_limit_marker :: string where
  "rate_limit_marker = ''429 (Too Many Requests)''"

definition terminal_error :: exn where
  "terminal_error = RuntimeError ''Failed to convert text to speech after retries''"

text \<open>
  The \<open>for attempt in range(max_retries)\<close> loop of \<open>convert_text_to_speech\<close>: the first
  argument counts the attempts left, \<open>retry_delay\<close> is the loop's mutable delay. An
  exception of \<open>time.sleep\<close> is raised inside the \<open>except\<close> clause and leaves the function.
\<close>

fun retry_loop ::
  "nat \<Rightarrow> env \<Rightarrow> pystr \<Rightarrow> string \<Rightarrow> path \<Rightarrow> int \<Rightarrow> world \<Rightarrow> (exn + path) \<times> world" where
  "retry_loop 0 e txt lang p retry_delay w = (Inl terminal_error, w)"
| "retry_loop (Suc n) e txt lang p retry_delay w =
     (case gtts_save e txt lang p w of
        (Inr u, w1) \<Rightarrow> (Inr p, w1)
      | (Inl (GTTSError msg), w1) \<Rightarrow>
          if str_contains rate_limit_marker msg
          then (case py_sleep retry_delay w1 of
                  (Inl x, w2) \<Rightarrow> (Inl x, w2)
                | (Inr u, w2) \<Rightarrow> retry_loop n e txt lang p (retry_delay * 2) w2)
          else (Inl (GTTSError msg), w1)
      | (Inl x, w1) \<Rightarrow> (Inl x, w1))"

definition convert_text_to_speech ::
  "env \<Rightarrow> pystr \<Rightarrow> string \<Rightarrow> path \<Rightarrow> string \<Rightarrow> int \<Rightarrow> int \<Rightarrow> world \<Rightarrow> (exn + path) \<times> world" where
  "convert_text_to_speech e txt filename_without_extension cache_folder_path language
       retry_delay max_retries w =
     (let audio_file_path = joinpath cache_folder_path (filename_without_extension @ ''.mp3'') in
      if path_exists w audio_file_path then (Inr audio_file_path, w)
      else retry_loop (nat max_retries) e txt language audio_file_path retry_delay w)"

text \<open>The \<open>else\<close> branch of the page loop: render, force RGB, re-encode as JPEG, OCR.\<close>

definition ocr_page :: "env \<Rightarrow> page \<Rightarrow> exn + pystr" where
  "ocr_page e pg =
     (case annotated pg of
        Inl x \<Rightarrow> Inl x
      | Inr pil_image \<Rightarrow>
          (case (if mode pil_image \<noteq> ''RGB'' then convert_mode e pil_image ''RGB''
                 else Inr pil_image) of
             Inl x \<Rightarrow> Inl x
           | Inr rgb \<Rightarrow>
               (case jpeg_reopen e rgb of
                  Inl x \<Rightarrow> Inl x
                | Inr reopened \<Rightarrow> image_to_string e reopened ''eng'')))"

fun extract_pages :: "env \<Rightarrow> pystr \<Rightarrow> page list \<Rightarrow> exn + pystr" where
  "extract_pages e txt [] = Inr txt"
| "extract_pages e txt (pg # pgs) =
     (case extract_text pg of
        Inl x \<Rightarrow> Inl x
      | Inr page_text \<Rightarrow>
          if page_text \<noteq> None \<and> page_text \<noteq> Some []
          then extract_pages e (txt @ the page_text) pgs
          else (case ocr_page e pg of
                  Inl x \<Rightarrow> Inl x
                | Inr recognised \<Rightarrow> extract_pages e (txt @ recognised) pgs))"

definition extract_text_from_pdf_with_ocr :: "env \<Rightarrow> path \<Rightarrow> exn + pystr" where
  "extract_text_from_pdf_with_ocr e pdf_path =
     (case pdf_open e pdf_path of
        Inl x \<Rightarrow> Inl x
      | Inr pgs \<Rightarrow> extract_pages e [] pgs)"

definition process_pdf ::
  "env \<Rightarrow> path \<Rightarrow> path \<Rightarrow> path \<Rightarrow> string \<Rightarrow> int \<Rightarrow> int \<Rightarrow> world \<Rightarrow> (exn + unit) \<times> world" where
  "process_pdf e pdf_path output_folder_path audio_folder_path language retry_delay max_retries w =
     (let filename_without_extension = path_stem pdf_path in
      case extract_text_from_pdf_with_ocr e pdf_path of
        Inl x \<Rightarrow> (Inl x, w)
      | Inr txt \<Rightarrow>
          if py_strip txt = [] then (Inr (), w)
          else
            (let output_file_path = joinpath output_folder_path (filename_without_extension @ ''.txt'')
             in case save_text_to_file e txt output_file_path w of
                  (Inl x, w1) \<Rightarrow> (Inl x, w1)
                | (Inr u, w1) \<Rightarrow>
                    (case convert_text_to_speech e txt filename_without_extension audio_folder_path
                            language retry_delay max_retries w1 of
                       (Inl x, w2) \<Rightarrow> (Inl x, w2)
                     | (Inr p, w2) \<Rightarrow> (Inr (), w2))))"

text \<open>
  \<open>main\<close>: the folders default to \<open>output\<close> and \<open>audio\<close> beside the script and the
  documents are those the directory listing returns. (Creating the two folders is not
  modelled: the file system here has no directories; a folder that cannot be written to
  shows in \<open>open_error\<close>.)
\<close>

record arguments =
  input_folder :: path
  output_folder :: "path option"
  audio_folder :: "path option"
  language :: string
  retry_delay :: int
  max_retries :: int

definition output_folder_path :: "env \<Rightarrow> arguments \<Rightarrow> path" where
  "output_folder_path e a =
     (case output_folder a of Some p \<Rightarrow> p | None \<Rightarrow> joinpath (script_directory e) ''output'')"

definition audio_folder_path :: "env \<Rightarrow> arguments \<Rightarrow> path" where
  "audio_folder_path e a =
     (case audio_folder a of Some p \<Rightarrow> p | None \<Rightarrow> joinpath (script_directory e) ''audio'')"

text \<open>Without \<open>--parallel\<close>: one document after the other; an exception ends the loop.\<close>

fun process_all :: "env \<Rightarrow> arguments \<Rightarrow> path list \<Rightarrow> world \<Rightarrow> (exn + unit) \<times> world" where
  "process_all e a [] w = (Inr (), w)"
| "process_all e a (pdf_path # rest) w =
     (case process_pdf e pdf_path (output_folder_path e a) (audio_folder_path e a)
             (language a) (retry_delay a) (max_retries a) w of
        (Inl x, w1) \<Rightarrow> (Inl x, w1)
      | (Inr u, w1) \<Rightarrow> process_all e a rest w1)"

definition main_sequential :: "env \<Rightarrow> arguments \<Rightarrow> world \<Rightarrow> (exn + unit) \<times> world" where
  "main_sequential e a w = process_all e a (glob_pdf e (input_folder a)) w"

text \<open>
  With \<open>--parallel\<close>: every document is submitted to the pool as one unit of work, a call
  of \<open>process_pdf\<close>. A unit is taken as a whole here (what happens inside one unit is not
  interleaved with another), so a run of the pool is the units carried out in the order
  in which they complete, which the scheduler chooses among the orders of the submitted
  documents. A unit that raises does not stop the others; \<open>future.result()\<close>, called in
  completion order, raises the first exception it meets, and leaving the \<open>with\<close> block
  waits for every unit.
\<close>

fun run_units :: "env \<Rightarrow> arguments \<Rightarrow> path list \<Rightarrow> world \<Rightarrow> (exn + unit) list \<times> world" where
  "run_units e a [] w = ([], w)"
| "run_units e a (pdf_path # rest) w =
     (case process_pdf e pdf_path (output_folder_path e a) (audio_folder_path e a)
             (language a) (retry_delay a) (max_retries a) w of
        (r, w1) \<Rightarrow> (case run_units e a rest w1 of (rs, w2) \<Rightarrow> (r # rs, w2)))"

fun collect_results :: "(exn + unit) list \<Rightarrow> exn + unit" where
  "collect_results [] = Inr ()"
| "collect_results (Inl x # rs) = Inl x"
| "collect_results (Inr u # rs) = collect_results rs"

definition main_parallel :: "env \<Rightarrow> arguments \<Rightarrow> path list \<Rightarrow> world \<Rightarrow> (exn + unit) \<times> world" where
  "main_parallel e a completion_order w =
     (case run_units e a completion_order w of (rs, w1) \<Rightarrow> (collect_results rs, w1))"

subsection \<open>Notions used in the statements\<close>

text \<open>
  An answer of the service is a rate limit when it is the \<open>gTTSError\<close> whose message
  holds the marker the \<open>except\<close> clause looks for.
\<close>

definition rate_limited :: "tts_outcome \<Rightarrow> bool" where
  "rate_limited out =
     (case out of Raises (GTTSError msg) left \<Rightarrow> str_contains rate_limit_marker msg | _ \<Rightarrow> False)"

text \<open>What a call leaves at its target: the audio, the file as it was, or what it wrote.\<close>

definition left_by :: "tts_outcome \<Rightarrow> (path \<rightharpoonup> file_data) \<Rightarrow> path \<Rightarrow> (path \<rightharpoonup> file_data)" where
  "left_by out f p =
     (case out of Saved a \<Rightarrow> f(p \<mapsto> AudioData a)
      | Raises x None \<Rightarrow> f
      | Raises x (Some part) \<Rightarrow> f(p \<mapsto> AudioData part))"

text \<open>The delays \<open>time.sleep\<close> accepts.\<close>

definition sleep_accepts :: "int \<Rightarrow> bool" where
  "sleep_accepts d \<longleftrightarrow> 0 \<le> d \<and> d \<le> 9223372036"

text \<open>
  \<open>grows w w'\<close>: the world \<open>w'\<close> comes after \<open>w\<close>. Every path of \<open>w\<close> still
  exists, and the service was called since only for paths that \<open>w\<close> did not have.
\<close>

definition grows :: "world \<Rightarrow> world \<Rightarrow> bool" where
  "grows w w' \<longleftrightarrow>
     (\<exists>new. tts_log w' = tts_log w @ new \<and> (\<forall>c\<in>set new. \<not> path_exists w (snd (snd c)))) \<and>
     (\<forall>q. path_exists w q \<longrightarrow> path_exists w' q)"

text \<open>
  A document can be handled without an error of its own when it can be read and, if it
  has text, its text file can be written.
\<close>

definition readable_and_writable :: "env \<Rightarrow> path \<Rightarrow> path \<Rightarrow> bool" where
  "readable_and_writable e out_dir pdf_path =
     (case extract_text_from_pdf_with_ocr e pdf_path of
        Inl x \<Rightarrow> False
      | Inr txt \<Rightarrow> py_strip txt = [] \<or>
          (open_error e (joinpath out_dir (path_stem pdf_path @ ''.txt'')) = None \<and>
           \<not> list_ex is_surrogate txt))"

text \<open>
  A document is settled in a world when it can be handled and either has no text or has
  its audio file already.
\<close>

definition settled :: "env \<Rightarrow> path \<Rightarrow> path \<Rightarrow> world \<Rightarrow> path \<Rightarrow> bool" where
  "settled e out_dir audio_dir w pdf_path =
     (case extract_text_from_pdf_with_ocr e pdf_path of
        Inl x \<Rightarrow> False
      | Inr txt \<Rightarrow> py_strip txt = [] \<or>
          (open_error e (joinpath out_dir (path_stem pdf_path @ ''.txt'')) = None \<and>
           \<not> list_ex is_surrogate txt \<and>
           path_exists w (joinpath audio_dir (path_stem pdf_path @ ''.mp3''))))"

text \<open>The output files of a document: none without text, else its text and audio file.\<close>

definition unit_outputs :: "env \<Rightarrow> path \<Rightarrow> path \<Rightarrow> path \<Rightarrow> path set" where
  "unit_outputs e out_dir audio_dir pdf_path =
     (case extract_text_from_pdf_with_ocr e pdf_path of
        Inl x \<Rightarrow> {}
      | Inr txt \<Rightarrow>
          if py_strip txt = [] then {}
          else {joinpath out_dir (path_stem pdf_path @ ''.txt''),
                joinpath audio_dir (path_stem pdf_path @ ''.mp3'')})"

text \<open>
  The specification's account of a page without text, written from its words and not
  from the code: the page is rendered to an image, the colour mode is normalised to RGB
  (an image already in RGB is kept, any other is converted), the image goes through the
  in-memory buffer, and the recogniser reads it with the English model.
\<close>

definition spec_rendered_rgb :: "env \<Rightarrow> page \<Rightarrow> exn + image" where
  "spec_rendered_rgb e pg =
     (case annotated pg of
        Inl x \<Rightarrow> Inl x
      | Inr rendered \<Rightarrow>
          (case (if mode rendered = ''RGB'' then Inr rendered
                 else convert_mode e rendered ''RGB'') of
             Inl x \<Rightarrow> Inl x
           | Inr three_channel \<Rightarrow> jpeg_reopen e three_channel))"

definition spec_ocr_output :: "env \<Rightarrow> page \<Rightarrow> exn + pystr" where
  "spec_ocr_output e pg =
     (case spec_rendered_rgb e pg of
        Inl x \<Rightarrow> Inl x
      | Inr img \<Rightarrow> image_to_string e img ''eng'')"

text \<open>
  The specification's account of one page: the native text when there is some, otherwise
  the OCR output.
\<close>

definition spec_page_result :: "env \<Rightarrow> page \<Rightarrow> exn + pystr" where
  "spec_page_result e pg =
     (case extract_text pg of
        Inl x \<Rightarrow> Inl x
      | Inr None \<Rightarrow> spec_ocr_output e pg
      | Inr (Some t) \<Rightarrow> if t = [] then spec_ocr_output e pg else Inr t)"

text \<open>
  What is taken from PIL for the colour mode: \<open>convert\<close> returns an image of the mode
  asked for, and an RGB image written as JPEG is read back as an RGB image.
\<close>

definition pil_keeps_rgb :: "env \<Rightarrow> bool" where
  "pil_keeps_rgb e \<longleftrightarrow>
     (\<forall>img converted. convert_mode e img ''RGB'' = Inr converted \<longrightarrow> mode converted = ''RGB'') \<and>
     (\<forall>img reopened. mode img = ''RGB'' \<longrightarrow> jpeg_reopen e img = Inr reopened \<longrightarrow>
        mode reopened = ''RGB'')"

subsection \<open>Sample documents and services\<close>

definition demo_world :: world where
  "demo_world = \<lparr>files = Map.empty, tts_log = [], sleeps = []\<rparr>"

definition demo_page_native :: page where
  "demo_page_native = \<lparr>extract_text = Inr (Some [72, 105]), annotated = Inr \<lparr>mode = ''RGB'', pixels = [0]\<rparr>\<rparr>"

definition demo_page_scanned :: page where
  "demo_page_scanned = \<lparr>extract_text = Inr None, annotated = Inr \<lparr>mode = ''L'', pixels = [79, 75]\<rparr>\<rparr>"

definition demo_page_blank :: page where
  "demo_page_blank = \<lparr>extract_text = Inr (Some [32, 10]), annotated = Inr \<lparr>mode = ''RGB'', pixels = []\<rparr>\<rparr>"

definition demo_env :: "(nat \<Rightarrow> tts_outcome) \<Rightarrow> env" where
  "demo_env service =
     \<lparr>pdf_open = (\<lambda>p. if p = [''in'', ''a.pdf''] then Inr [demo_page_native, demo_page_scanned]
                       else if p = [''in'', ''blank.pdf''] then Inr [demo_page_blank]
                       else Inl (OtherException ''cannot open'')),
      convert_mode = (\<lambda>img m. Inr (img\<lparr>mode := m\<rparr>)),
      jpeg_reopen = Inr,
      image_to_string = (\<lambda>img lang. if lang = ''eng'' \<and> mode img = ''RGB'' then Inr (pixels img) else Inr []),
      gtts = (\<lambda>n txt lang. service n),
      md5_hexdigest = (\<lambda>txt. ''d41d8cd98f00b204e9800998ecf8427e''),
      glob_pdf = (\<lambda>folder. if folder = [''in''] then [[''in'', ''a.pdf''], [''in'', ''blank.pdf'']] else []),
      script_directory = [''app''],
      open_error = (\<lambda>p. None)\<rparr>"

text \<open>A rate-limited call and a refused call each leave the empty file \<open>save\<close> opened.\<close>

definition limited :: tts_outcome where
  "limited = Raises (GTTSError ''429 (Too Many Requests) from TTS API. Probable cause: Unknown'') (Some [])"

definition refused :: tts_outcome where
  "refused = Raises (GTTSError ''503 (Service Unavailable) from TTS API. Probable cause: Unknown'') (Some [])"


definition limited_twice :: "nat \<Rightarrow> tts_outcome" where
  "limited_twice n = (if n < 2 then limited else Saved [73, 68, 51])"

definition limited_then_refused :: "nat \<Rightarrow> tts_outcome" where
  "limited_then_refused n = (if n < 1 then limited else refused)"

definition always_limited :: "nat \<Rightarrow> tts_outcome" where
  "always_limited n = limited"

definition refusing :: "nat \<Rightarrow> tts_outcome" where
  "refusing n = refused"

definition answering :: "nat \<Rightarrow> tts_outcome" where
  "answering n = Saved [73, 68, 51]"

definition demo_arguments :: arguments where
  "demo_arguments = \<lparr>input_folder = [''in''], output_folder = Some [''out''], audio_folder = None,
     language = ''en'', retry_delay = 5, max_retries = 10\<rparr>"

definition demo_after_first_run :: world where
  "demo_after_first_run =
     \<lparr>files = [[''out'', ''a.txt''] \<mapsto> TextData [72, 105, 79, 75],
               [''app'', ''audio'', ''a.mp3''] \<mapsto> AudioData [73, 68, 51]],
      tts_log = [([72, 105, 79, 75], ''en'', [''app'', ''audio'', ''a.mp3'']),
                 ([72, 105, 79, 75], ''en'', [''app'', ''audio'', ''a.mp3'']),
                 ([72, 105, 79, 75], ''en'', [''app'', ''audio'', ''a.mp3''])],
      sleeps = [5, 10]\<rparr>"

section \<open>Paths\<close>

lemma segments_last:
  "c \<noteq> CHR ''/'' \<Longrightarrow> \<exists>pre l. segments cur (u @ [c]) = pre @ [l @ [c]]"
proof (induction u arbitrary: cur)
  case Nil
  have "segments cur [c] = [] @ [cur @ [c]]" using Nil by simp
  then show ?case by (metis append_Nil)
next
  case (Cons a u)
  show ?case
  proof (cases "a = CHR ''/''")
    case True
    from Cons.IH[OF Cons.prems, of "[]"] obtain pre l where "segments [] (u @ [c]) = pre @ [l @ [c]]"
      by blast
    with True have "segments cur ((a # u) @ [c]) = (cur # pre) @ [l @ [c]]" by simp
    then show ?thesis by blast
  next
    case False
    from Cons.IH[OF Cons.prems, of "cur @ [a]"] obtain pre l where
      "segments (cur @ [a]) (u @ [c]) = pre @ [l @ [c]]" by blast
    with False have "segments cur ((a # u) @ [c]) = pre @ [l @ [c]]" by simp
    then show ?thesis by blast
  qed
qed

lemma joinpath_last:
  assumes "c \<noteq> CHR ''/''" and "c \<noteq> CHR ''.''"
  shows "\<exists>pre l. joinpath folder (u @ [c]) = pre @ [l @ [c]]"
proof -
  from segments_last[OF assms(1), of "[]" u] obtain pre l where
    s: "segments [] (u @ [c]) = pre @ [l @ [c]]" by blast
  have keep: "l @ [c] \<noteq> [] \<and> l @ [c] \<noteq> ''.''" using assms(2) by (cases l) simp_all
  have "path_parts (u @ [c]) = filter (\<lambda>s. s \<noteq> [] \<and> s \<noteq> ''.'') pre @ [l @ [c]]"
    unfolding path_parts_def s using keep by simp
  then obtain pre' where p: "path_parts (u @ [c]) = pre' @ [l @ [c]]" by blast
  show ?thesis
  proof (cases "take 1 (u @ [c]) = ''/''")
    case True
    then have "joinpath folder (u @ [c]) = (path_root (u @ [c]) # pre') @ [l @ [c]]"
      by (simp add: joinpath_def p)
    then show ?thesis by blast
  next
    case False
    then have "joinpath folder (u @ [c]) = (folder @ pre') @ [l @ [c]]"
      by (simp add: joinpath_def p)
    then show ?thesis by blast
  qed
qed

lemma txt_mp3_differ: "joinpath a (s @ ''.txt'') \<noteq> joinpath b (s' @ ''.mp3'')"
proof
  assume eq: "joinpath a (s @ ''.txt'') = joinpath b (s' @ ''.mp3'')"
  have "\<exists>pre l. joinpath a ((s @ ''.tx'') @ [CHR ''t'']) = pre @ [l @ [CHR ''t'']]"
    by (rule joinpath_last) simp_all
  then obtain pre l where t: "joinpath a (s @ ''.txt'') = pre @ [l @ [CHR ''t'']]" by auto
  have "\<exists>pre l. joinpath b ((s' @ ''.mp'') @ [CHR ''3'']) = pre @ [l @ [CHR ''3'']]"
    by (rule joinpath_last) simp_all
  then obtain pre' l' where m: "joinpath b (s' @ ''.mp3'') = pre' @ [l' @ [CHR ''3'']]" by auto
  from eq t m have "pre @ [l @ [CHR ''t'']] = pre' @ [l' @ [CHR ''3'']]" by simp
  then have "l @ [CHR ''t''] = l' @ [CHR ''3'']" by simp
  then show False by simp
qed

text \<open>A name of one part is appended as it is.\<close>

lemma segments_plain: "CHR ''/'' \<notin> set name \<Longrightarrow> segments cur name = [cur @ name]"
  by (induction name arbitrary: cur) auto

lemma joinpath_plain:
  assumes "CHR ''/'' \<notin> set name" and "name \<noteq> []" and "name \<noteq> ''.''"
  shows "joinpath folder name = folder @ [name]"
proof -
  have "take 1 name \<noteq> ''/''" using assms(1,2) by (cases name) auto
  moreover have "path_parts name = [name]"
    using assms by (simp add: path_parts_def segments_plain)
  ultimately show ?thesis by (simp add: joinpath_def)
qed

section \<open>The retry loop\<close>

lemma rate_limitedE:
  "rate_limited out \<Longrightarrow>
   \<exists>msg left. out = Raises (GTTSError msg) left \<and> str_contains rate_limit_marker msg"
  by (auto simp: rate_limited_def split: tts_outcome.splits exn.splits)

lemma py_sleep_accepted:
  "sleep_accepts d \<Longrightarrow> py_sleep d w = (Inr (), w\<lparr>sleeps := sleeps w @ [d]\<rparr>)"
  by (simp add: sleep_accepts_def py_sleep_def)

lemma py_sleep_cases:
  obtains (accepted) "py_sleep d w = (Inr (), w\<lparr>sleeps := sleeps w @ [d]\<rparr>)"
  | (raised) x where "py_sleep d w = (Inl x, w)"
  unfolding py_sleep_def by (cases "d < - 9223372036 \<or> 9223372036 < d"; cases "d < 0") auto

lemma left_by_other: "q \<noteq> p \<Longrightarrow> left_by out f p q = f q"
  by (simp add: left_by_def split: tts_outcome.splits option.splits)

lemma left_by_exists: "f q \<noteq> None \<Longrightarrow> left_by out f p q \<noteq> None"
  by (simp add: left_by_def split: tts_outcome.splits option.splits)

lemma left_by_failed:
  "left_by (Raises x left) f p p = f p \<or>
   (\<exists>part. left = Some part \<and> left_by (Raises x left) f p p = Some (AudioData part))"
  by (cases left) (simp_all add: left_by_def)

lemma gtts_save_eq:
  "gtts_save e t l p w =
     (case gtts e (length (tts_log w)) t l of Saved a \<Rightarrow> Inr () | Raises x left \<Rightarrow> Inl x,
      w\<lparr>tts_log := tts_log w @ [(t, l, p)],
        files := left_by (gtts e (length (tts_log w)) t l) (files w) p\<rparr>)"
  by (simp add: gtts_save_def left_by_def Let_def split: tts_outcome.splits option.splits)

lemma retry_loop_success_step:
  "gtts e (length (tts_log w)) t l = Saved a \<Longrightarrow>
   retry_loop (Suc n) e t l p d w =
     (Inr p, w\<lparr>tts_log := tts_log w @ [(t, l, p)], files := (files w)(p \<mapsto> AudioData a)\<rparr>)"
  by (simp add: gtts_save_eq left_by_def)

lemma retry_loop_other_step:
  "gtts e (length (tts_log w)) t l = Raises x left \<Longrightarrow> \<not> rate_limited (Raises x left) \<Longrightarrow>
   retry_loop (Suc n) e t l p d w =
     (Inl x, w\<lparr>tts_log := tts_log w @ [(t, l, p)],
               files := left_by (Raises x left) (files w) p\<rparr>)"
  by (cases x) (simp_all add: gtts_save_eq rate_limited_def)

lemma retry_loop_limited_step:
  assumes "rate_limited (gtts e (length (tts_log w)) t l)"
  shows "retry_loop (Suc n) e t l p d w =
     (case py_sleep d (w\<lparr>tts_log := tts_log w @ [(t, l, p)],
                         files := left_by (gtts e (length (tts_log w)) t l) (files w) p\<rparr>) of
        (Inl x, w2) \<Rightarrow> (Inl x, w2)
      | (Inr u, w2) \<Rightarrow> retry_loop n e t l p (d * 2) w2)"
proof -
  from rate_limitedE[OF assms] obtain msg left where
    m: "gtts e (length (tts_log w)) t l = Raises (GTTSError msg) left"
       "str_contains rate_limit_marker msg" by blast
  show ?thesis using m by (simp add: gtts_save_eq)
qed

declare retry_loop.simps(2) [simp del]

lemma retry_loop_Suc_cases:
  obtains (saved) a where
      "gtts e (length (tts_log w)) t l = Saved a"
      "retry_loop (Suc n) e t l p d w =
         (Inr p, w\<lparr>tts_log := tts_log w @ [(t, l, p)], files := (files w)(p \<mapsto> AudioData a)\<rparr>)"
  | (raised) x y left where
      "gtts e (length (tts_log w)) t l = Raises y left"
      "retry_loop (Suc n) e t l p d w =
         (Inl x, w\<lparr>tts_log := tts_log w @ [(t, l, p)],
                   files := left_by (Raises y left) (files w) p\<rparr>)"
  | (slept) y left where
      "gtts e (length (tts_log w)) t l = Raises y left"
      "retry_loop (Suc n) e t l p d w =
         retry_loop n e t l p (d * 2)
           (w\<lparr>tts_log := tts_log w @ [(t, l, p)],
              files := left_by (Raises y left) (files w) p,
              sleeps := sleeps w @ [d]\<rparr>)"
proof (cases "gtts e (length (tts_log w)) t l")
  case (Saved a)
  from saved[OF Saved retry_loop_success_step[OF Saved]] show ?thesis .
next
  case (Raises y left)
  show ?thesis
  proof (cases "rate_limited (Raises y left)")
    case False
    show ?thesis by (rule raised[OF Raises retry_loop_other_step[OF Raises False]])
  next
    case True
    then have lim: "rate_limited (gtts e (length (tts_log w)) t l)" using Raises by simp
    let ?w1 = "w\<lparr>tts_log := tts_log w @ [(t, l, p)],
                  files := left_by (Raises y left) (files w) p\<rparr>"
    note step = retry_loop_limited_step[OF lim, of n p d, unfolded Raises]
    show ?thesis
    proof (cases rule: py_sleep_cases[of d ?w1])
      case accepted
      with step have "retry_loop (Suc n) e t l p d w =
         retry_loop n e t l p (d * 2)
           (w\<lparr>tts_log := tts_log w @ [(t, l, p)],
              files := left_by (Raises y left) (files w) p,
              sleeps := sleeps w @ [d]\<rparr>)" by simp
      with Raises show ?thesis by (rule slept)
    next
      case (raised x)
      with step have "retry_loop (Suc n) e t l p d w = (Inl x, ?w1)" by simp
      with Raises show ?thesis by (rule that(2))
    qed
  qed
qed

lemma delays_Suc: "map (\<lambda>i. d * 2 ^ i) [0..<Suc k] = d # map (\<lambda>i. (d * 2) * 2 ^ i) [0..<k]" for d :: int
proof -
  have "[0..<Suc k] = 0 # map Suc [0..<k]"
    by (simp add: upt_conv_Cons map_Suc_upt del: upt_Suc)
  then show ?thesis by (simp add: comp_def mult.assoc del: upt_Suc)
qed

text \<open>
  \<open>k\<close> rate-limited attempts, each followed by a sleep that is accepted: the loop goes
  on with \<open>k\<close> more entries in the log, \<open>k\<close> more sleeps, the delay doubled \<open>k\<close> times,
  and no file touched but the target.
\<close>

lemma retry_loop_limited_prefix:
  "(\<forall>i<k. sleep_accepts (d * 2 ^ i)) \<Longrightarrow>
   (\<forall>i<k. rate_limited (gtts e (length (tts_log w) + i) t l)) \<Longrightarrow>
   \<exists>f. (\<forall>q. q \<noteq> p \<longrightarrow> f q = files w q) \<and> (\<forall>q. files w q \<noteq> None \<longrightarrow> f q \<noteq> None) \<and>
       retry_loop (k + n) e t l p d w =
       retry_loop n e t l p (d * 2 ^ k)
         (w\<lparr>files := f, tts_log := tts_log w @ replicate k (t, l, p),
            sleeps := sleeps w @ map (\<lambda>i. d * 2 ^ i) [0..<k]\<rparr>)"
proof (induction k arbitrary: d w)
  case 0
  have "retry_loop (0 + n) e t l p d w =
      retry_loop n e t l p (d * 2 ^ 0)
        (w\<lparr>files := files w, tts_log := tts_log w @ replicate 0 (t, l, p),
           sleeps := sleeps w @ map (\<lambda>i. d * 2 ^ i) [0..<0]\<rparr>)" by simp
  then show ?case by blast
next
  case (Suc k)
  let ?out = "gtts e (length (tts_log w)) t l"
  let ?w1 = "w\<lparr>tts_log := tts_log w @ [(t, l, p)], files := left_by ?out (files w) p,
                sleeps := sleeps w @ [d]\<rparr>"
  from Suc.prems(2) have first: "rate_limited ?out"
    by (metis add.right_neutral zero_less_Suc)
  from Suc.prems(1) have d: "sleep_accepts d"
    by (metis mult.right_neutral power_0 zero_less_Suc)
  have acc: "\<forall>i<k. sleep_accepts ((d * 2) * 2 ^ i)"
  proof (intro allI impI)
    fix i assume "i < k"
    then have "Suc i < Suc k" by simp
    with Suc.prems(1) have "sleep_accepts (d * 2 ^ Suc i)" by blast
    then show "sleep_accepts ((d * 2) * 2 ^ i)" by (simp add: mult.assoc)
  qed
  have rest: "\<forall>i<k. rate_limited (gtts e (length (tts_log ?w1) + i) t l)"
    using Suc.prems(2) by (auto dest: spec[where x="Suc _"])
  have "retry_loop (Suc k + n) e t l p d w = retry_loop (k + n) e t l p (d * 2) ?w1"
    using retry_loop_limited_step[OF first, of "k + n" p d] py_sleep_accepted[OF d] by simp
  moreover from Suc.IH[OF acc rest] obtain f where
    f: "\<forall>q. q \<noteq> p \<longrightarrow> f q = files ?w1 q" "\<forall>q. files ?w1 q \<noteq> None \<longrightarrow> f q \<noteq> None"
    and run: "retry_loop (k + n) e t l p (d * 2) ?w1 =
       retry_loop n e t l p ((d * 2) * 2 ^ k)
         (?w1\<lparr>files := f, tts_log := tts_log ?w1 @ replicate k (t, l, p),
            sleeps := sleeps ?w1 @ map (\<lambda>i. (d * 2) * 2 ^ i) [0..<k]\<rparr>)"
    by blast
  moreover have "?w1\<lparr>files := f, tts_log := tts_log ?w1 @ replicate k (t, l, p),
            sleeps := sleeps ?w1 @ map (\<lambda>i. (d * 2) * 2 ^ i) [0..<k]\<rparr> =
      w\<lparr>files := f, tts_log := tts_log w @ replicate (Suc k) (t, l, p),
            sleeps := sleeps w @ map (\<lambda>i. d * 2 ^ i) [0..<Suc k]\<rparr>"
    unfolding delays_Suc by (simp add: replicate_app_Cons_same del: upt_Suc)
  ultimately have "retry_loop (Suc k + n) e t l p d w =
       retry_loop n e t l p (d * 2 ^ Suc k)
         (w\<lparr>files := f, tts_log := tts_log w @ replicate (Suc k) (t, l, p),
            sleeps := sleeps w @ map (\<lambda>i. d * 2 ^ i) [0..<Suc k]\<rparr>)"
    by (simp add: mult.assoc)
  moreover have "\<forall>q. q \<noteq> p \<longrightarrow> f q = files w q"
    using f(1) by (simp add: left_by_other)
  moreover have "\<forall>q. files w q \<noteq> None \<longrightarrow> f q \<noteq> None"
    using f(2) left_by_exists[of "files w" _ ?out p] by simp
  ultimately show ?case by blast
qed

lemma demo_absent: "\<not> path_exists demo_world p"
  by (simp add: path_exists_def demo_world_def)

lemma limited_is_rate_limited: "rate_limited limited"
  by (simp add: rate_limited_def limited_def rate_limit_marker_def)

lemma refused_is_not_rate_limited: "\<not> rate_limited refused"
  by (simp add: rate_limited_def refused_def rate_limit_marker_def)

lemma demo_gtts: "gtts (demo_env s) n t l = s n"
  by (simp add: demo_env_def)

lemma demo_audio_path: "joinpath [''audio''] ''a.mp3'' = [''audio'', ''a.mp3'']"
  by (simp add: joinpath_plain)




section \<open>Speech synthesis: cache, back-off, failures\<close>

text \<open>
  Claim C2. When \<open>folder/filename.mp3\<close> exists, \<open>convert_text_to_speech\<close> returns that
  path and leaves the world as it was: no call to the service, no sleep, no file written.
  The answer is the same for every other text, language, delay, retry budget and library
  environment (the content-hash deriver \<open>md5_hexdigest\<close> among them): only the file name
  and the folder decide.
\<close>

theorem cached_audio_is_returned:
  assumes "is_cached filename folder w"
  shows "convert_text_to_speech e txt filename folder lang d m w =
           (Inr (joinpath folder (filename @ ''.mp3'')), w) \<and>
         convert_text_to_speech e' txt' filename folder lang' d' m' w =
           convert_text_to_speech e txt filename folder lang d m w"
  using assms by (simp add: convert_text_to_speech_def is_cached_def)

theorem cached_audio_is_returned_witness:
  "is_cached ''a'' [''audio''] (demo_world\<lparr>files := [[''audio'', ''a.mp3''] \<mapsto> AudioData [1]]\<rparr>) \<and>
   convert_text_to_speech (demo_env limited_twice) [72, 105] ''a'' [''audio''] ''en'' 5 10
       (demo_world\<lparr>files := [[''audio'', ''a.mp3''] \<mapsto> AudioData [1]]\<rparr>) =
     (Inr [''audio'', ''a.mp3''], demo_world\<lparr>files := [[''audio'', ''a.mp3''] \<mapsto> AudioData [1]]\<rparr>) \<and>
   convert_text_to_speech (demo_env (\<lambda>n. limited)) [66, 121, 101] ''a'' [''audio''] ''fr'' 1 3
       (demo_world\<lparr>files := [[''audio'', ''a.mp3''] \<mapsto> AudioData [1]]\<rparr>) =
     (Inr [''audio'', ''a.mp3''], demo_world\<lparr>files := [[''audio'', ''a.mp3''] \<mapsto> AudioData [1]]\<rparr>)"
proof -
  let ?w = "demo_world\<lparr>files := [[''audio'', ''a.mp3''] \<mapsto> AudioData [1]]\<rparr>"
  have h: "is_cached ''a'' [''audio''] ?w"
    by (simp add: is_cached_def path_exists_def demo_audio_path)
  show ?thesis
    using h cached_audio_is_returned [OF h, of "demo_env limited_twice" "[72, 105]" "''en''" 5 10
        "demo_env (\<lambda>n. limited)" "[66, 121, 101]" "''fr''" 1 3]
    by (simp add: demo_audio_path)
qed



lemma retry_loop_numeral:
  "retry_loop (numeral k) e t l p d w =
     (case gtts_save e t l p w of
        (Inr u, w1) \<Rightarrow> (Inr p, w1)
      | (Inl (GTTSError msg), w1) \<Rightarrow>
          if str_contains rate_limit_marker msg
          then (case py_sleep d w1 of
                  (Inl x, w2) \<Rightarrow> (Inl x, w2)
                | (Inr u, w2) \<Rightarrow> retry_loop (pred_numeral k) e t l p (d * 2) w2)
          else (Inl (GTTSError msg), w1)
      | (Inl x, w1) \<Rightarrow> (Inl x, w1))"
  by (simp only: numeral_eq_Suc retry_loop.simps(2))





text \<open>
  Claim C5. An attempt that fails with anything but the rate limit ends the call with
  that very error: the attempt is logged, nothing is slept and nothing more is tried,
  however many attempts are left. First for one iteration of the loop in any state, then
  for \<open>convert_text_to_speech\<close> when \<open>k\<close> rate-limited attempts, each followed by a sleep
  that was accepted, came before.
\<close>

theorem other_error_is_raised_at_once:
  assumes failure: "gtts e (length (tts_log w) + k) txt lang = Raises x left"
    and other: "\<not> rate_limited (Raises x left)"
  shows "(k = 0 \<longrightarrow>
            fst (retry_loop (Suc n) e txt lang p d w) = Inl x \<and>
            tts_log (snd (retry_loop (Suc n) e txt lang p d w)) = tts_log w @ [(txt, lang, p)] \<and>
            sleeps (snd (retry_loop (Suc n) e txt lang p d w)) = sleeps w) \<and>
         (\<not> path_exists w (joinpath folder (filename @ ''.mp3'')) \<and> int k < m \<and>
          (\<forall>i<k. sleep_accepts (d * 2 ^ i)) \<and>
          (\<forall>i<k. rate_limited (gtts e (length (tts_log w) + i) txt lang)) \<longrightarrow>
            fst (convert_text_to_speech e txt filename folder lang d m w) = Inl x \<and>
            tts_log (snd (convert_text_to_speech e txt filename folder lang d m w)) =
              tts_log w @ replicate (Suc k) (txt, lang, joinpath folder (filename @ ''.mp3'')) \<and>
            sleeps (snd (convert_text_to_speech e txt filename folder lang d m w)) =
              sleeps w @ map (\<lambda>i. d * 2 ^ i) [0..<k])"
proof (intro conjI impI)
  assume "k = 0"
  with failure have "gtts e (length (tts_log w)) txt lang = Raises x left" by simp
  note step = retry_loop_other_step[OF this other, of n p d]
  show "fst (retry_loop (Suc n) e txt lang p d w) = Inl x"
    and "tts_log (snd (retry_loop (Suc n) e txt lang p d w)) = tts_log w @ [(txt, lang, p)]"
    and "sleeps (snd (retry_loop (Suc n) e txt lang p d w)) = sleeps w"
    by (simp_all add: step)
next
  let ?p = "joinpath folder (filename @ ''.mp3'')"
  assume h: "\<not> path_exists w ?p \<and> int k < m \<and> (\<forall>i<k. sleep_accepts (d * 2 ^ i)) \<and>
          (\<forall>i<k. rate_limited (gtts e (length (tts_log w) + i) txt lang))"
  define j where "j = nat m - Suc k"
  have j: "nat m = k + Suc j"
    using h unfolding j_def by linarith
  from h have acc: "\<forall>i<k. sleep_accepts (d * 2 ^ i)"
    and lim: "\<forall>i<k. rate_limited (gtts e (length (tts_log w) + i) txt lang)" by blast+
  from retry_loop_limited_prefix[OF acc lim, of ?p "Suc j"] obtain f where
    run: "retry_loop (k + Suc j) e txt lang ?p d w =
       retry_loop (Suc j) e txt lang ?p (d * 2 ^ k)
         (w\<lparr>files := f, tts_log := tts_log w @ replicate k (txt, lang, ?p),
            sleeps := sleeps w @ map (\<lambda>i. d * 2 ^ i) [0..<k]\<rparr>)"
    by blast
  let ?w = "w\<lparr>files := f, tts_log := tts_log w @ replicate k (txt, lang, ?p),
            sleeps := sleeps w @ map (\<lambda>i. d * 2 ^ i) [0..<k]\<rparr>"
  have "gtts e (length (tts_log ?w)) txt lang = Raises x left" using failure by simp
  note step = retry_loop_other_step[OF this other, of j ?p "d * 2 ^ k"]
  have "convert_text_to_speech e txt filename folder lang d m w =
      retry_loop (k + Suc j) e txt lang ?p d w"
    using h j by (simp add: convert_text_to_speech_def)
  also note run
  also note step
  finally have c: "convert_text_to_speech e txt filename folder lang d m w =
      (Inl x, ?w\<lparr>tts_log := tts_log ?w @ [(txt, lang, ?p)],
                  files := left_by (Raises x left) (files ?w) ?p\<rparr>)" .
  show "fst (convert_text_to_speech e txt filename folder lang d m w) = Inl x"
    and "tts_log (snd (convert_text_to_speech e txt filename folder lang d m w)) =
              tts_log w @ replicate (Suc k) (txt, lang, ?p)"
    and "sleeps (snd (convert_text_to_speech e txt filename folder lang d m w)) =
              sleeps w @ map (\<lambda>i. d * 2 ^ i) [0..<k]"
    by (simp_all add: c replicate_append_same)
qed

theorem other_error_is_raised_at_once_witness:
  "fst (retry_loop (Suc 9) (demo_env (\<lambda>n. Raises (OtherException ''ConnectionError'') None)) [72, 105]
          ''en'' [''audio'', ''a.mp3''] 5 demo_world) = Inl (OtherException ''ConnectionError'') \<and>
   tts_log (snd (retry_loop (Suc 9) (demo_env (\<lambda>n. Raises (OtherException ''ConnectionError'') None))
          [72, 105] ''en'' [''audio'', ''a.mp3''] 5 demo_world)) = [([72, 105], ''en'', [''audio'', ''a.mp3''])] \<and>
   sleeps (snd (retry_loop (Suc 9) (demo_env (\<lambda>n. Raises (OtherException ''ConnectionError'') None))
          [72, 105] ''en'' [''audio'', ''a.mp3''] 5 demo_world)) = [] \<and>
   fst (convert_text_to_speech (demo_env limited_then_refused) [72, 105] ''a'' [''audio''] ''en'' 5 10
          demo_world) =
     Inl (GTTSError ''503 (Service Unavailable) from TTS API. Probable cause: Unknown'') \<and>
   tts_log (snd (convert_text_to_speech (demo_env limited_then_refused) [72, 105] ''a'' [''audio''] ''en'' 5 10
          demo_world)) =
     [([72, 105], ''en'', [''audio'', ''a.mp3'']), ([72, 105], ''en'', [''audio'', ''a.mp3''])] \<and>
   sleeps (snd (convert_text_to_speech (demo_env limited_then_refused) [72, 105] ''a'' [''audio''] ''en'' 5 10
          demo_world)) = [5]"
proof -
  have f0: "gtts (demo_env (\<lambda>n. Raises (OtherException ''ConnectionError'') None)) (length (tts_log demo_world) + 0) [72, 105] ''en'' =
      Raises (OtherException ''ConnectionError'') None"
    by (simp add: demo_gtts)
  have o0: "\<not> rate_limited (Raises (OtherException ''ConnectionError'') None)"
    by (simp add: rate_limited_def)
  have f1: "gtts (demo_env limited_then_refused) (length (tts_log demo_world) + 1) [72, 105] ''en'' =
      Raises (GTTSError ''503 (Service Unavailable) from TTS API. Probable cause: Unknown'') (Some [])"
    by (simp add: demo_gtts limited_then_refused_def refused_def)
  have o1: "\<not> rate_limited (Raises (GTTSError ''503 (Service Unavailable) from TTS API. Probable cause: Unknown'') (Some []))"
    using refused_is_not_rate_limited by (simp add: refused_def)
  have l: "\<forall>i<1. rate_limited (gtts (demo_env limited_then_refused) (length (tts_log demo_world) + i) [72, 105] ''en'')"
    by (simp add: demo_gtts demo_world_def limited_then_refused_def limited_is_rate_limited)
  have acc: "\<forall>i<1. sleep_accepts (5 * 2 ^ i)"
    by (simp add: sleep_accepts_def)
  show ?thesis
    using other_error_is_raised_at_once [OF f0 o0, of 9 "[''audio'', ''a.mp3'']" 5 "[''audio'']" "''a''" 10]
      other_error_is_raised_at_once [OF f1 o1, of 9 "[''audio'', ''a.mp3'']" 5 "[''audio'']" "''a''" 10]
      l acc demo_absent
    by (simp add: demo_audio_path demo_world_def)
qed

text \<open>
  Claim C9. With \<open>max_retries \<le> 0\<close> and no audio file yet, \<open>convert_text_to_speech\<close>
  raises the terminal error and leaves the world as it was: the service was never called
  and nothing was slept.
\<close>

theorem no_attempts_allowed_is_terminal:
  assumes "m \<le> 0" and "\<not> path_exists w (joinpath folder (filename @ ''.mp3''))"
  shows "convert_text_to_speech e txt filename folder lang d m w =
           (Inl (RuntimeError ''Failed to convert text to speech after retries''), w)"
  using assms by (simp add: convert_text_to_speech_def terminal_error_def)

theorem no_attempts_allowed_is_terminal_witness:
  "convert_text_to_speech (demo_env (\<lambda>n. Saved [73, 68, 51])) [72, 105] ''a'' [''audio''] ''en'' 5 0 demo_world =
     (Inl (RuntimeError ''Failed to convert text to speech after retries''), demo_world)"
proof -
  have h: "(0::int) \<le> 0" by simp
  show ?thesis
    using no_attempts_allowed_is_terminal [OF h demo_absent] by simp
qed

section \<open>The effect of one synthesis call on the world\<close>

text \<open>
  What one run of the loop can do to the world: it logs calls for its target, touches no
  other file, removes none; when it returns the target exists, and when it raises no
  call had an answer and the target is as it was or as a failed call left it.
\<close>

lemma retry_loop_effect:
  "retry_loop n e t l p d w = (r, w') \<Longrightarrow>
     (\<exists>k. tts_log w' = tts_log w @ replicate k (t, l, p)) \<and>
     (\<forall>q. q \<noteq> p \<longrightarrow> files w' q = files w q) \<and>
     (\<forall>q. files w q \<noteq> None \<longrightarrow> files w' q \<noteq> None) \<and>
     (\<forall>p'. r = Inr p' \<longrightarrow> p' = p \<and> files w' p \<noteq> None) \<and>
     (\<forall>x. r = Inl x \<longrightarrow>
        (\<forall>i. length (tts_log w) \<le> i \<and> i < length (tts_log w') \<longrightarrow>
           (\<exists>y left. gtts e i t l = Raises y left)) \<and>
        (files w' p = files w p \<or>
         (\<exists>i y part. length (tts_log w) \<le> i \<and> i < length (tts_log w') \<and>
            gtts e i t l = Raises y (Some part) \<and> files w' p = Some (AudioData part))))"
proof (induction n arbitrary: d w)
  case 0
  then have "w' = w" "r = Inl terminal_error" by simp_all
  moreover have "tts_log w = tts_log w @ replicate 0 (t, l, p)" by simp
  ultimately show ?case by auto
next
  case (Suc n)
  show ?case
  proof (cases rule: retry_loop_Suc_cases[of e w t l n p d])
    case (saved a)
    with Suc.prems have r: "r = Inr p"
      and w': "w' = w\<lparr>tts_log := tts_log w @ [(t, l, p)], files := (files w)(p \<mapsto> AudioData a)\<rparr>"
      by simp_all
    have "tts_log w' = tts_log w @ replicate 1 (t, l, p)" using w' by simp
    then have "\<exists>k. tts_log w' = tts_log w @ replicate k (t, l, p)" by blast
    then show ?thesis using r w' by simp
  next
    case (raised x y left)
    with Suc.prems have r: "r = Inl x"
      and w': "w' = w\<lparr>tts_log := tts_log w @ [(t, l, p)],
                        files := left_by (Raises y left) (files w) p\<rparr>"
      by simp_all
    have "tts_log w' = tts_log w @ replicate 1 (t, l, p)" using w' by simp
    then have a: "\<exists>k. tts_log w' = tts_log w @ replicate k (t, l, p)" by blast
    have b: "\<forall>q. q \<noteq> p \<longrightarrow> files w' q = files w q" using w' by (simp add: left_by_other)
    have c: "\<forall>q. files w q \<noteq> None \<longrightarrow> files w' q \<noteq> None" using w' by (simp add: left_by_exists)
    have len: "length (tts_log w') = Suc (length (tts_log w))" using w' by simp
    have d1: "\<forall>i. length (tts_log w) \<le> i \<and> i < length (tts_log w') \<longrightarrow>
           (\<exists>y left. gtts e i t l = Raises y left)"
    proof (intro allI impI)
      fix i assume "length (tts_log w) \<le> i \<and> i < length (tts_log w')"
      with len have "i = length (tts_log w)" by simp
      with raised(1) show "\<exists>y left. gtts e i t l = Raises y left" by blast
    qed
    have d2: "files w' p = files w p \<or>
         (\<exists>i y part. length (tts_log w) \<le> i \<and> i < length (tts_log w') \<and>
            gtts e i t l = Raises y (Some part) \<and> files w' p = Some (AudioData part))"
    proof (cases "files w' p = files w p")
      case True
      then show ?thesis by simp
    next
      case False
      with left_by_failed[of y left "files w" p] w' obtain part where
        "left = Some part" "files w' p = Some (AudioData part)" by auto
      with raised(1) len have "length (tts_log w) \<le> length (tts_log w) \<and>
          length (tts_log w) < length (tts_log w') \<and>
          gtts e (length (tts_log w)) t l = Raises y (Some part) \<and>
          files w' p = Some (AudioData part)" by simp
      then show ?thesis by blast
    qed
    from a b c d1 d2 r show ?thesis by simp
  next
    case (slept y left)
    let ?w1 = "w\<lparr>tts_log := tts_log w @ [(t, l, p)],
                  files := left_by (Raises y left) (files w) p, sleeps := sleeps w @ [d]\<rparr>"
    from slept Suc.prems have "retry_loop n e t l p (d * 2) ?w1 = (r, w')" by simp
    note ih = Suc.IH[OF this]
    from ih obtain k where k: "tts_log w' = tts_log ?w1 @ replicate k (t, l, p)" by blast
    then have "tts_log w' = tts_log w @ replicate (Suc k) (t, l, p)"
      by (simp add: replicate_app_Cons_same)
    then have a: "\<exists>k. tts_log w' = tts_log w @ replicate k (t, l, p)" by blast
    have len1: "length (tts_log ?w1) = Suc (length (tts_log w))" by simp
    have b: "\<forall>q. q \<noteq> p \<longrightarrow> files w' q = files w q" using ih by (simp add: left_by_other)
    have c: "\<forall>q. files w q \<noteq> None \<longrightarrow> files w' q \<noteq> None"
      using ih left_by_exists[of "files w" _ "Raises y left" p] by simp
    have s: "\<forall>p'. r = Inr p' \<longrightarrow> p' = p \<and> files w' p \<noteq> None" using ih by blast
    have d1: "\<forall>i. length (tts_log w) \<le> i \<and> i < length (tts_log w') \<longrightarrow>
           (\<exists>y left. gtts e i t l = Raises y left)" if "r = Inl x" for x
    proof (intro allI impI)
      fix i assume i: "length (tts_log w) \<le> i \<and> i < length (tts_log w')"
      show "\<exists>y left. gtts e i t l = Raises y left"
      proof (cases "i = length (tts_log w)")
        case True
        with slept(1) show ?thesis by blast
      next
        case False
        with i len1 have "length (tts_log ?w1) \<le> i \<and> i < length (tts_log w')" by simp
        with ih that show ?thesis by blast
      qed
    qed
    have d2: "files w' p = files w p \<or>
         (\<exists>i y part. length (tts_log w) \<le> i \<and> i < length (tts_log w') \<and>
            gtts e i t l = Raises y (Some part) \<and> files w' p = Some (AudioData part))"
      if "r = Inl x" for x
    proof -
      from ih that have "files w' p = files ?w1 p \<or>
         (\<exists>i y part. length (tts_log ?w1) \<le> i \<and> i < length (tts_log w') \<and>
            gtts e i t l = Raises y (Some part) \<and> files w' p = Some (AudioData part))" by blast
      then show ?thesis
      proof
        assume same: "files w' p = files ?w1 p"
        have lt: "length (tts_log w) < length (tts_log w')" using k by simp
        from left_by_failed[of y left "files w" p] show ?thesis
        proof
          assume "left_by (Raises y left) (files w) p p = files w p"
          with same show ?thesis by simp
        next
          assume "\<exists>part. left = Some part \<and>
              left_by (Raises y left) (files w) p p = Some (AudioData part)"
          then obtain part where "left = Some part"
              "left_by (Raises y left) (files w) p p = Some (AudioData part)" by blast
          with same slept(1) lt have "length (tts_log w) \<le> length (tts_log w) \<and>
              length (tts_log w) < length (tts_log w') \<and>
              gtts e (length (tts_log w)) t l = Raises y (Some part) \<and>
              files w' p = Some (AudioData part)" by simp
          then show ?thesis by blast
        qed
      next
        assume "\<exists>i y part. length (tts_log ?w1) \<le> i \<and> i < length (tts_log w') \<and>
            gtts e i t l = Raises y (Some part) \<and> files w' p = Some (AudioData part)"
        then obtain i y' part where "length (tts_log ?w1) \<le> i" "i < length (tts_log w')"
            "gtts e i t l = Raises y' (Some part)" "files w' p = Some (AudioData part)" by blast
        with len1 have "length (tts_log w) \<le> i \<and> i < length (tts_log w') \<and>
            gtts e i t l = Raises y' (Some part) \<and> files w' p = Some (AudioData part)" by simp
        then show ?thesis by blast
      qed
    qed
    from a b c s d1 d2 show ?thesis by blast
  qed
qed

lemma convert_effect:
  assumes "convert_text_to_speech e t name folder l d m w = (r, w')"
  shows "(path_exists w (joinpath folder (name @ ''.mp3'')) \<longrightarrow>
            w' = w \<and> r = Inr (joinpath folder (name @ ''.mp3''))) \<and>
     (\<exists>k. tts_log w' = tts_log w @ replicate k (t, l, joinpath folder (name @ ''.mp3''))) \<and>
     (\<forall>q. q \<noteq> joinpath folder (name @ ''.mp3'') \<longrightarrow> files w' q = files w q) \<and>
     (\<forall>q. path_exists w q \<longrightarrow> path_exists w' q) \<and>
     (\<forall>p'. r = Inr p' \<longrightarrow> path_exists w' (joinpath folder (name @ ''.mp3''))) \<and>
     (\<forall>x. r = Inl x \<longrightarrow>
        \<not> path_exists w (joinpath folder (name @ ''.mp3'')) \<and>
        (\<forall>i. length (tts_log w) \<le> i \<and> i < length (tts_log w') \<longrightarrow>
           (\<exists>y left. gtts e i t l = Raises y left)) \<and>
        (files w' (joinpath folder (name @ ''.mp3'')) = None \<or>
         (\<exists>i y part. length (tts_log w) \<le> i \<and> i < length (tts_log w') \<and>
            gtts e i t l = Raises y (Some part) \<and>
            files w' (joinpath folder (name @ ''.mp3'')) = Some (AudioData part))))"
proof (cases "path_exists w (joinpath folder (name @ ''.mp3''))")
  case True
  with assms have "w' = w" "r = Inr (joinpath folder (name @ ''.mp3''))"
    by (simp_all add: convert_text_to_speech_def)
  moreover have "tts_log w = tts_log w @ replicate 0 (t, l, joinpath folder (name @ ''.mp3''))" by simp
  ultimately show ?thesis using True by blast
next
  case False
  let ?p = "joinpath folder (name @ ''.mp3'')"
  from False have none: "files w ?p = None" by (simp add: path_exists_def)
  from False assms have "retry_loop (nat m) e t l ?p d w = (r, w')"
    by (simp add: convert_text_to_speech_def)
  note eff = retry_loop_effect[OF this]
  have a: "\<exists>k. tts_log w' = tts_log w @ replicate k (t, l, ?p)" using eff by blast
  have b: "\<forall>q. q \<noteq> ?p \<longrightarrow> files w' q = files w q" using eff by blast
  have c: "\<forall>q. path_exists w q \<longrightarrow> path_exists w' q" using eff unfolding path_exists_def by blast
  have s: "\<forall>p'. r = Inr p' \<longrightarrow> path_exists w' ?p" using eff unfolding path_exists_def by blast
  have f1: "\<forall>i. length (tts_log w) \<le> i \<and> i < length (tts_log w') \<longrightarrow>
           (\<exists>y left. gtts e i t l = Raises y left)" if "r = Inl x" for x
    using eff that by blast
  have f2: "files w' ?p = None \<or>
         (\<exists>i y part. length (tts_log w) \<le> i \<and> i < length (tts_log w') \<and>
            gtts e i t l = Raises y (Some part) \<and> files w' ?p = Some (AudioData part))"
    if "r = Inl x" for x
    using eff that none by auto
  from a b c s f1 f2 False show ?thesis by blast
qed

lemma grows_refl: "grows w w"
  by (simp add: grows_def)

lemma grows_trans:
  assumes "grows w1 w2" and "grows w2 w3"
  shows "grows w1 w3"
proof -
  from assms(1) obtain n1 where n1: "tts_log w2 = tts_log w1 @ n1"
      "\<forall>c\<in>set n1. \<not> path_exists w1 (snd (snd c))"
    and m1: "\<forall>q. path_exists w1 q \<longrightarrow> path_exists w2 q"
    unfolding grows_def by blast
  from assms(2) obtain n2 where n2: "tts_log w3 = tts_log w2 @ n2"
      "\<forall>c\<in>set n2. \<not> path_exists w2 (snd (snd c))"
    and m2: "\<forall>q. path_exists w2 q \<longrightarrow> path_exists w3 q"
    unfolding grows_def by blast
  have "tts_log w3 = tts_log w1 @ (n1 @ n2)" using n1(1) n2(1) by simp
  moreover have "\<forall>c\<in>set (n1 @ n2). \<not> path_exists w1 (snd (snd c))"
    using n1(2) n2(2) m1 by auto
  moreover have "\<forall>q. path_exists w1 q \<longrightarrow> path_exists w3 q" using m1 m2 by blast
  ultimately show ?thesis unfolding grows_def by blast
qed

lemma save_text_cases:
  obtains (refused) x where "open_error e p = Some x" "save_text_to_file e t p w = (Inl x, w)"
  | (unencodable) "open_error e p = None" "list_ex is_surrogate t"
      "save_text_to_file e t p w =
         (Inl (UnicodeEncodeError ''surrogates not allowed''), w\<lparr>files := (files w)(p \<mapsto> TextData [])\<rparr>)"
  | (written) "open_error e p = None" "\<not> list_ex is_surrogate t"
      "save_text_to_file e t p w = (Inr (), w\<lparr>files := (files w)(p \<mapsto> TextData t)\<rparr>)"
  by (cases "open_error e p"; cases "list_ex is_surrogate t") (simp_all add: save_text_to_file_def)

lemma grows_save_text: "save_text_to_file e t p w = (r, w') \<Longrightarrow> grows w w'"
  by (cases rule: save_text_cases[of e p t w]) (auto simp: grows_def path_exists_def)

lemma grows_convert:
  assumes "convert_text_to_speech e t name folder l d m w = (r, w')"
  shows "grows w w'"
proof (cases "path_exists w (joinpath folder (name @ ''.mp3''))")
  case True
  with convert_effect[OF assms] have "w' = w" by blast
  then show ?thesis by (simp add: grows_refl)
next
  case False
  let ?p = "joinpath folder (name @ ''.mp3'')"
  from convert_effect[OF assms] obtain k where
    k: "tts_log w' = tts_log w @ replicate k (t, l, ?p)"
    and keep: "\<forall>q. path_exists w q \<longrightarrow> path_exists w' q"
    by blast
  have "\<forall>c\<in>set (replicate k (t, l, ?p)). \<not> path_exists w (snd (snd c))"
    using False by auto
  with k keep show ?thesis unfolding grows_def by blast
qed

section \<open>Processing one document\<close>

lemma dropWhile_all_Nil:
  assumes "\<forall>c\<in>set (dropWhile P xs). P c"
  shows "dropWhile P xs = []"
proof (rule ccontr)
  assume ne: "dropWhile P xs \<noteq> []"
  then have "\<not> P (hd (dropWhile P xs))" by (rule hd_dropWhile)
  moreover from ne have "hd (dropWhile P xs) \<in> set (dropWhile P xs)" by (rule hd_in_set)
  ultimately show False using assms by blast
qed

lemma py_strip_empty_iff: "py_strip t = [] \<longleftrightarrow> (\<forall>c\<in>set t. py_isspace c)"
proof
  assume "py_strip t = []"
  then have "\<forall>c\<in>set (dropWhile py_isspace t). py_isspace c"
    by (simp add: py_strip_def dropWhile_eq_Nil_conv)
  then have "dropWhile py_isspace t = []" by (rule dropWhile_all_Nil)
  then show "\<forall>c\<in>set t. py_isspace c" by (simp add: dropWhile_eq_Nil_conv)
next
  assume "\<forall>c\<in>set t. py_isspace c"
  then show "py_strip t = []" by (auto simp: py_strip_def dest: set_dropWhileD)
qed

text \<open>The four ways \<open>process_pdf\<close> can go.\<close>

lemma process_pdf_cases:
  assumes "process_pdf e pdf_path out_dir audio_dir lang d m w = (r, w')"
  obtains (unreadable) x where "extract_text_from_pdf_with_ocr e pdf_path = Inl x" "r = Inl x" "w' = w"
  | (blank) t where "extract_text_from_pdf_with_ocr e pdf_path = Inr t" "py_strip t = []"
      "r = Inr ()" "w' = w"
  | (unwritten) t x where "extract_text_from_pdf_with_ocr e pdf_path = Inr t" "py_strip t \<noteq> []"
      "save_text_to_file e t (joinpath out_dir (path_stem pdf_path @ ''.txt'')) w = (Inl x, w')"
      "r = Inl x"
  | (spoken) t w1 r0 where "extract_text_from_pdf_with_ocr e pdf_path = Inr t" "py_strip t \<noteq> []"
      "save_text_to_file e t (joinpath out_dir (path_stem pdf_path @ ''.txt'')) w = (Inr (), w1)"
      "convert_text_to_speech e t (path_stem pdf_path) audio_dir lang d m w1 = (r0, w')"
      "r = (case r0 of Inl x \<Rightarrow> Inl x | Inr p \<Rightarrow> Inr ())"
proof (cases "extract_text_from_pdf_with_ocr e pdf_path")
  case (Inl x)
  with assms have "r = Inl x" "w' = w" by (simp_all add: process_pdf_def)
  with Inl show ?thesis by (rule unreadable)
next
  case (Inr t)
  show ?thesis
  proof (cases "py_strip t = []")
    case True
    with assms Inr have "r = Inr ()" "w' = w" by (simp_all add: process_pdf_def)
    with Inr True show ?thesis by (rule blank)
  next
    case False
    let ?tp = "joinpath out_dir (path_stem pdf_path @ ''.txt'')"
    obtain rs w1 where s: "save_text_to_file e t ?tp w = (rs, w1)"
      by (cases "save_text_to_file e t ?tp w") blast
    show ?thesis
    proof (cases rs)
      case (Inl x)
      with assms Inr False s have "r = Inl x" "w' = w1"
        by (simp_all add: process_pdf_def Let_def)
      with Inr False s Inl show ?thesis by (intro unwritten) simp_all
    next
      case (Inr u)
      obtain r0 w0 where c: "convert_text_to_speech e t (path_stem pdf_path) audio_dir lang d m w1 = (r0, w0)"
        by (cases "convert_text_to_speech e t (path_stem pdf_path) audio_dir lang d m w1") blast
      with assms \<open>extract_text_from_pdf_with_ocr e pdf_path = Inr t\<close> False s Inr
      have "w' = w0" "r = (case r0 of Inl x \<Rightarrow> Inl x | Inr p \<Rightarrow> Inr ())"
        by (simp_all add: process_pdf_def Let_def split: sum.splits)
      with \<open>extract_text_from_pdf_with_ocr e pdf_path = Inr t\<close> False s Inr c
      show ?thesis by (intro spoken) simp_all
    qed
  qed
qed

lemma grows_process_pdf:
  assumes "process_pdf e pdf_path out_dir audio_dir lang d m w = (r, w')"
  shows "grows w w'"
  using assms
proof (cases rule: process_pdf_cases)
  case (unreadable x)
  then show ?thesis by (simp add: grows_refl)
next
  case (blank t)
  then show ?thesis by (simp add: grows_refl)
next
  case (unwritten t x)
  then show ?thesis by (simp add: grows_save_text)
next
  case (spoken t w1 r0)
  from grows_save_text[OF spoken(3)] grows_convert[OF spoken(4)] show ?thesis by (rule grows_trans)
qed

lemma demo_stem: "path_stem [''in'', ''a.pdf''] = ''a''"
  by (simp add: path_stem_def path_name_def rfind_dot_def Let_def)

lemma demo_text_path: "joinpath [''out''] ''a.txt'' = [''out'', ''a.txt'']"
  by (simp add: joinpath_plain)

lemma demo_default_audio_path: "joinpath [''app'', ''audio''] ''a.mp3'' = [''app'', ''audio'', ''a.mp3'']"
  by (simp add: joinpath_plain)

lemma demo_extract_a: "extract_text_from_pdf_with_ocr (demo_env s) [''in'', ''a.pdf''] = Inr [72, 105, 79, 75]"
  by (simp add: extract_text_from_pdf_with_ocr_def demo_env_def demo_page_native_def
      demo_page_scanned_def ocr_page_def)

lemma demo_extract_blank: "extract_text_from_pdf_with_ocr (demo_env s) [''in'', ''blank.pdf''] = Inr [32, 10]"
  by (simp add: extract_text_from_pdf_with_ocr_def demo_env_def demo_page_blank_def)

lemma demo_not_blank: "py_strip [72, 105, 79, 75] \<noteq> []"
  by (simp add: py_strip_def py_isspace_def)

lemma demo_blank: "py_strip [32, 10] = []"
  by (simp add: py_strip_def py_isspace_def)

lemma demo_save_text:
  "save_text_to_file (demo_env s) [72, 105, 79, 75] [''out'', ''a.txt''] w =
     (Inr (), w\<lparr>files := (files w)([''out'', ''a.txt''] \<mapsto> TextData [72, 105, 79, 75])\<rparr>)"
  by (simp add: save_text_to_file_def demo_env_def is_surrogate_def)

text \<open>
  Claim C1. A document whose extracted text is empty or all whitespace leaves the world as
  it was: \<open>process_pdf\<close> returns normally, writes neither a text file nor an audio file,
  and never calls the synthesis service.
\<close>

theorem blank_text_creates_nothing:
  assumes "extract_text_from_pdf_with_ocr e pdf_path = Inr txt"
    and "\<forall>c\<in>set txt. py_isspace c"
  shows "process_pdf e pdf_path out_dir audio_dir lang d m w = (Inr (), w)"
  using assms by (simp add: process_pdf_def py_strip_empty_iff)

theorem blank_text_creates_nothing_witness:
  "process_pdf (demo_env limited_twice) [''in'', ''blank.pdf''] [''out''] [''audio''] ''en'' 5 10 demo_world =
     (Inr (), demo_world)"
proof -
  have b: "\<forall>c\<in>set [32, 10]. py_isspace c" by (simp add: py_isspace_def)
  show ?thesis
    using blank_text_creates_nothing [OF demo_extract_blank b] by simp
qed

text \<open>
  Claim C10, as the code has it. The document has text and its text file is written; the
  synthesis call that follows raises (any error but the rate limit, a sleep that is
  refused, or the retries running out). Then \<open>process_pdf\<close> raises that error; the text
  file \<open>output_folder/stem.txt\<close> held the text before synthesis started and holds it
  still; no call to the service had an answer; and \<open>audio_folder/stem.mp3\<close> is absent or
  is the partial file a failed call left there, \<open>save\<close> having opened it before the request.
\<close>

theorem text_file_outlives_failed_synthesis:
  assumes extraction: "extract_text_from_pdf_with_ocr e pdf_path = Inr txt0"
    and has_text: "py_strip txt0 \<noteq> []"
    and written: "save_text_to_file e txt0 (joinpath out_dir (path_stem pdf_path @ ''.txt'')) w = (Inr (), w1)"
    and raised: "convert_text_to_speech e txt0 (path_stem pdf_path) audio_dir lang d m w1 = (Inl x, w2)"
  shows "process_pdf e pdf_path out_dir audio_dir lang d m w = (Inl x, w2) \<and>
         files w1 (joinpath out_dir (path_stem pdf_path @ ''.txt'')) = Some (TextData txt0) \<and>
         files w2 (joinpath out_dir (path_stem pdf_path @ ''.txt'')) = Some (TextData txt0) \<and>
         (\<forall>i. length (tts_log w1) \<le> i \<and> i < length (tts_log w2) \<longrightarrow>
            (\<exists>y left. gtts e i txt0 lang = Raises y left)) \<and>
         (files w2 (joinpath audio_dir (path_stem pdf_path @ ''.mp3'')) = None \<or>
          (\<exists>i y part. length (tts_log w1) \<le> i \<and> i < length (tts_log w2) \<and>
             gtts e i txt0 lang = Raises y (Some part) \<and>
             files w2 (joinpath audio_dir (path_stem pdf_path @ ''.mp3'')) = Some (AudioData part)))"
proof -
  let ?tp = "joinpath out_dir (path_stem pdf_path @ ''.txt'')"
  let ?ap = "joinpath audio_dir (path_stem pdf_path @ ''.mp3'')"
  note eff = convert_effect[OF raised]
  have run: "process_pdf e pdf_path out_dir audio_dir lang d m w = (Inl x, w2)"
    using extraction has_text written raised by (simp add: process_pdf_def Let_def)
  have before: "files w1 ?tp = Some (TextData txt0)"
    using written by (cases rule: save_text_cases[of e ?tp txt0 w]) auto
  from eff have "files w2 ?tp = files w1 ?tp" using txt_mp3_differ by blast
  with before have after: "files w2 ?tp = Some (TextData txt0)" by simp
  from eff have calls: "\<forall>i. length (tts_log w1) \<le> i \<and> i < length (tts_log w2) \<longrightarrow>
            (\<exists>y left. gtts e i txt0 lang = Raises y left)" by blast
  from eff have audio: "files w2 ?ap = None \<or>
          (\<exists>i y part. length (tts_log w1) \<le> i \<and> i < length (tts_log w2) \<and>
             gtts e i txt0 lang = Raises y (Some part) \<and> files w2 ?ap = Some (AudioData part))"
    by blast
  from run before after calls audio show ?thesis by blast
qed

theorem text_file_outlives_failed_synthesis_witness:
  "process_pdf (demo_env always_limited) [''in'', ''a.pdf''] [''out''] [''audio''] ''en'' 5 2 demo_world =
     (Inl (RuntimeError ''Failed to convert text to speech after retries''),
      \<lparr>files = [[''out'', ''a.txt''] \<mapsto> TextData [72, 105, 79, 75], [''audio'', ''a.mp3''] \<mapsto> AudioData []],
       tts_log = [([72, 105, 79, 75], ''en'', [''audio'', ''a.mp3'']),
                  ([72, 105, 79, 75], ''en'', [''audio'', ''a.mp3''])],
       sleeps = [5, 10]\<rparr>) \<and>
   files \<lparr>files = [[''out'', ''a.txt''] \<mapsto> TextData [72, 105, 79, 75], [''audio'', ''a.mp3''] \<mapsto> AudioData []],
       tts_log = [([72, 105, 79, 75], ''en'', [''audio'', ''a.mp3'']),
                  ([72, 105, 79, 75], ''en'', [''audio'', ''a.mp3''])],
       sleeps = [5, 10]\<rparr> [''out'', ''a.txt''] = Some (TextData [72, 105, 79, 75])"
proof -
  let ?w1 = "\<lparr>files = [[''out'', ''a.txt''] \<mapsto> TextData [72, 105, 79, 75]], tts_log = [], sleeps = []\<rparr>"
  let ?w2 = "\<lparr>files = [[''out'', ''a.txt''] \<mapsto> TextData [72, 105, 79, 75], [''audio'', ''a.mp3''] \<mapsto> AudioData []],
       tts_log = [([72, 105, 79, 75], ''en'', [''audio'', ''a.mp3'']),
                  ([72, 105, 79, 75], ''en'', [''audio'', ''a.mp3''])],
       sleeps = [5, 10]\<rparr>"
  have written: "save_text_to_file (demo_env always_limited) [72, 105, 79, 75]
      (joinpath [''out''] (path_stem [''in'', ''a.pdf''] @ ''.txt'')) demo_world = (Inr (), ?w1)"
    by (simp add: demo_stem demo_text_path demo_save_text demo_world_def)
  have raised: "convert_text_to_speech (demo_env always_limited) [72, 105, 79, 75]
      (path_stem [''in'', ''a.pdf'']) [''audio''] ''en'' 5 2 ?w1 =
      (Inl (RuntimeError ''Failed to convert text to speech after retries''), ?w2)"
    by (simp add: demo_stem convert_text_to_speech_def demo_audio_path path_exists_def
        retry_loop_numeral retry_loop.simps(2)[of 0] gtts_save_def demo_gtts always_limited_def
        limited_def rate_limit_marker_def py_sleep_def terminal_error_def Let_def)
  show ?thesis
    using text_file_outlives_failed_synthesis [OF demo_extract_a demo_not_blank written raised]
    by (simp add: demo_stem demo_text_path)
qed

text \<open>
  The claim as it is written fails on its last part. The service refuses the first call
  (error 503) after \<open>save\<close> has opened the target: \<open>process_pdf\<close> raises, the text file
  is there, and so is an audio file, empty.
\<close>

theorem text_file_outlives_failed_synthesis_counterexample:
  "process_pdf (demo_env refusing) [''in'', ''a.pdf''] [''out''] [''audio''] ''en'' 5 10 demo_world =
     (Inl (GTTSError ''503 (Service Unavailable) from TTS API. Probable cause: Unknown''),
      \<lparr>files = [[''out'', ''a.txt''] \<mapsto> TextData [72, 105, 79, 75], [''audio'', ''a.mp3''] \<mapsto> AudioData []],
       tts_log = [([72, 105, 79, 75], ''en'', [''audio'', ''a.mp3''])], sleeps = []\<rparr>) \<and>
   path_exists
     \<lparr>files = [[''out'', ''a.txt''] \<mapsto> TextData [72, 105, 79, 75], [''audio'', ''a.mp3''] \<mapsto> AudioData []],
       tts_log = [([72, 105, 79, 75], ''en'', [''audio'', ''a.mp3''])], sleeps = []\<rparr>
     [''audio'', ''a.mp3'']"
  by (simp add: process_pdf_def demo_extract_a demo_not_blank demo_stem demo_text_path demo_save_text
      convert_text_to_speech_def demo_audio_path path_exists_def demo_world_def
      retry_loop_numeral gtts_save_def demo_gtts refusing_def refused_def
      rate_limit_marker_def Let_def)

section \<open>Text extraction\<close>

text \<open>The fall-back of the code does what the specification says of a page without text.\<close>

lemma ocr_page_is_spec: "ocr_page e pg = spec_ocr_output e pg"
proof (cases "annotated pg")
  case (Inl x)
  then show ?thesis by (simp add: ocr_page_def spec_ocr_output_def spec_rendered_rgb_def)
next
  case (Inr img)
  then show ?thesis
    by (cases "mode img = ''RGB''")
      (simp_all add: ocr_page_def spec_ocr_output_def spec_rendered_rgb_def split: sum.splits)
qed

lemma spec_rendered_rgb_mode:
  assumes "pil_keeps_rgb e" and "spec_rendered_rgb e pg = Inr img"
  shows "mode img = ''RGB''"
proof -
  from assms(2) obtain rendered three_channel where
    r: "annotated pg = Inr rendered"
    and c: "(if mode rendered = ''RGB'' then Inr rendered else convert_mode e rendered ''RGB'') = Inr three_channel"
    and j: "jpeg_reopen e three_channel = Inr img"
    by (auto simp: spec_rendered_rgb_def split: sum.splits)
  from c assms(1) have "mode three_channel = ''RGB''"
    unfolding pil_keeps_rgb_def by (cases "mode rendered = ''RGB''") auto
  with j assms(1) show ?thesis unfolding pil_keeps_rgb_def by blast
qed

lemma extract_pages_concat:
  "map (spec_page_result e) pgs = map Inr results \<Longrightarrow>
   extract_pages e acc pgs = Inr (acc @ concat results)"
proof (induction pgs arbitrary: acc results)
  case Nil
  then show ?case by simp
next
  case (Cons pg pgs)
  from Cons.prems obtain r rs where rs: "results = r # rs" "spec_page_result e pg = Inr r"
      "map (spec_page_result e) pgs = map Inr rs"
    by (cases results) auto
  from rs(2) have "extract_pages e acc (pg # pgs) = extract_pages e (acc @ r) pgs"
    by (auto simp: spec_page_result_def ocr_page_is_spec split: sum.splits option.splits if_splits)
  with Cons.IH[OF rs(3), of "acc @ r"] rs(1) show ?case by simp
qed

text \<open>
  Claim C6. When the document opens and every page yields a result, the extracted text is
  the results of the pages, in page order, appended with nothing in between; a page's
  result is its native text when that is not empty, and otherwise what the recogniser
  reads with the English model in the page rendered to an image and brought to RGB. In
  particular, for two pages of which the first has text and the second has none, the
  result is the first page's text followed by the second page's OCR output. The image
  the recogniser gets has mode RGB, PIL doing what it says for \<open>convert\<close> and JPEG.
\<close>

theorem extracted_text_is_pages_in_order:
  assumes "pdf_open e pdf_path = Inr pgs"
    and "map (spec_page_result e) pgs = map Inr results"
  shows "extract_text_from_pdf_with_ocr e pdf_path = Inr (concat results) \<and>
         (\<forall>p1 p2 t1 img o2. pgs = [p1, p2] \<and> extract_text p1 = Inr (Some t1) \<and> t1 \<noteq> [] \<and>
            (extract_text p2 = Inr None \<or> extract_text p2 = Inr (Some [])) \<and>
            spec_rendered_rgb e p2 = Inr img \<and> image_to_string e img ''eng'' = Inr o2 \<longrightarrow>
            extract_text_from_pdf_with_ocr e pdf_path = Inr (t1 @ o2)) \<and>
         (pil_keeps_rgb e \<longrightarrow>
            (\<forall>pg\<in>set pgs. \<forall>img. spec_rendered_rgb e pg = Inr img \<longrightarrow> mode img = ''RGB''))"
proof (intro conjI)
  show main: "extract_text_from_pdf_with_ocr e pdf_path = Inr (concat results)"
    using assms(1) extract_pages_concat[OF assms(2), of "[]"]
    by (simp add: extract_text_from_pdf_with_ocr_def)
  show "\<forall>p1 p2 t1 img o2. pgs = [p1, p2] \<and> extract_text p1 = Inr (Some t1) \<and> t1 \<noteq> [] \<and>
            (extract_text p2 = Inr None \<or> extract_text p2 = Inr (Some [])) \<and>
            spec_rendered_rgb e p2 = Inr img \<and> image_to_string e img ''eng'' = Inr o2 \<longrightarrow>
            extract_text_from_pdf_with_ocr e pdf_path = Inr (t1 @ o2)"
  proof (intro allI impI)
    fix p1 p2 t1 img o2
    assume h: "pgs = [p1, p2] \<and> extract_text p1 = Inr (Some t1) \<and> t1 \<noteq> [] \<and>
            (extract_text p2 = Inr None \<or> extract_text p2 = Inr (Some [])) \<and>
            spec_rendered_rgb e p2 = Inr img \<and> image_to_string e img ''eng'' = Inr o2"
    then have "map (spec_page_result e) pgs = map Inr [t1, o2]"
      by (auto simp: spec_page_result_def spec_ocr_output_def)
    from extract_pages_concat[OF this, of "[]"] assms(1)
    show "extract_text_from_pdf_with_ocr e pdf_path = Inr (t1 @ o2)"
      by (simp add: extract_text_from_pdf_with_ocr_def)
  qed
  show "pil_keeps_rgb e \<longrightarrow>
            (\<forall>pg\<in>set pgs. \<forall>img. spec_rendered_rgb e pg = Inr img \<longrightarrow> mode img = ''RGB'')"
    using spec_rendered_rgb_mode by blast
qed

theorem extracted_text_is_pages_in_order_witness:
  "extract_text_from_pdf_with_ocr (demo_env limited_twice) [''in'', ''a.pdf''] = Inr [72, 105, 79, 75] \<and>
   spec_rendered_rgb (demo_env limited_twice) demo_page_scanned = Inr \<lparr>mode = ''RGB'', pixels = [79, 75]\<rparr> \<and>
   pil_keeps_rgb (demo_env limited_twice)"
proof -
  have o: "pdf_open (demo_env limited_twice) [''in'', ''a.pdf''] = Inr [demo_page_native, demo_page_scanned]"
    by (simp add: demo_env_def)
  have g: "spec_rendered_rgb (demo_env limited_twice) demo_page_scanned = Inr \<lparr>mode = ''RGB'', pixels = [79, 75]\<rparr>"
    by (simp add: spec_rendered_rgb_def demo_env_def demo_page_scanned_def)
  have i: "image_to_string (demo_env limited_twice) \<lparr>mode = ''RGB'', pixels = [79, 75]\<rparr> ''eng'' = Inr [79, 75]"
    by (simp add: demo_env_def)
  have n: "extract_text demo_page_native = Inr (Some [72, 105])"
      "extract_text demo_page_scanned = Inr None"
    by (simp_all add: demo_page_native_def demo_page_scanned_def)
  have r: "map (spec_page_result (demo_env limited_twice)) [demo_page_native, demo_page_scanned] =
      map Inr [[72, 105], [79, 75]]"
    by (simp add: spec_page_result_def spec_ocr_output_def g i n)
  have k: "pil_keeps_rgb (demo_env limited_twice)"
    by (auto simp: pil_keeps_rgb_def demo_env_def)
  show ?thesis
    using extracted_text_is_pages_in_order [OF o r] g k by simp
qed

section \<open>The batch\<close>

lemma grows_process_all:
  "process_all e a pdfs w = (r, w') \<Longrightarrow> grows w w'"
proof (induction pdfs arbitrary: w)
  case Nil
  then show ?case by (simp add: grows_refl)
next
  case (Cons pdf rest)
  obtain r1 w1 where step: "process_pdf e pdf (output_folder_path e a) (audio_folder_path e a)
      (language a) (retry_delay a) (max_retries a) w = (r1, w1)"
    by (cases "process_pdf e pdf (output_folder_path e a) (audio_folder_path e a)
      (language a) (retry_delay a) (max_retries a) w") blast
  note g1 = grows_process_pdf[OF step]
  show ?case
  proof (cases r1)
    case (Inl x)
    with Cons.prems step have "w' = w1" by simp
    with g1 show ?thesis by simp
  next
    case (Inr u)
    with Cons.prems step have "process_all e a rest w1 = (r, w')" by simp
    from g1 Cons.IH[OF this] show ?thesis by (rule grows_trans)
  qed
qed

lemma settled_grows:
  "settled e out_dir audio_dir w pdf \<Longrightarrow> grows w w' \<Longrightarrow> settled e out_dir audio_dir w' pdf"
  unfolding settled_def grows_def by (auto split: sum.splits)

lemma process_pdf_ok_settled:
  assumes "process_pdf e pdf out_dir audio_dir lang d m w = (Inr (), w')"
  shows "settled e out_dir audio_dir w' pdf"
  using assms
proof (cases rule: process_pdf_cases)
  case (unreadable x)
  then show ?thesis by simp
next
  case (blank t)
  then show ?thesis by (simp add: settled_def)
next
  case (unwritten t x)
  then show ?thesis by simp
next
  case (spoken t w1 r0)
  from spoken(5) obtain p where "r0 = Inr p" by (cases r0) simp_all
  with convert_effect[OF spoken(4)] have "path_exists w' (joinpath audio_dir (path_stem pdf @ ''.mp3''))"
    by blast
  moreover from spoken(3) have "open_error e (joinpath out_dir (path_stem pdf @ ''.txt'')) = None \<and>
      \<not> list_ex is_surrogate t"
    by (cases rule: save_text_cases[of e "joinpath out_dir (path_stem pdf @ ''.txt'')" t w]) auto
  ultimately show ?thesis using spoken(1) by (simp add: settled_def)
qed

lemma process_pdf_settled_idle:
  assumes "settled e out_dir audio_dir w pdf"
  shows "\<exists>w'. process_pdf e pdf out_dir audio_dir lang d m w = (Inr (), w') \<and>
           tts_log w' = tts_log w \<and> sleeps w' = sleeps w"
proof -
  from assms obtain t where t: "extract_text_from_pdf_with_ocr e pdf = Inr t"
    and c: "py_strip t = [] \<or>
       (open_error e (joinpath out_dir (path_stem pdf @ ''.txt'')) = None \<and>
        \<not> list_ex is_surrogate t \<and>
        path_exists w (joinpath audio_dir (path_stem pdf @ ''.mp3'')))"
    unfolding settled_def by (auto split: sum.splits)
  show ?thesis
  proof (cases "py_strip t = []")
    case True
    with t show ?thesis by (simp add: process_pdf_def)
  next
    case False
    let ?tp = "joinpath out_dir (path_stem pdf @ ''.txt'')"
    let ?w1 = "w\<lparr>files := (files w)(?tp \<mapsto> TextData t)\<rparr>"
    from False c have s: "save_text_to_file e t ?tp w = (Inr (), ?w1)"
      by (simp add: save_text_to_file_def)
    from False c have "path_exists ?w1 (joinpath audio_dir (path_stem pdf @ ''.mp3''))"
      by (simp add: path_exists_def)
    then have "convert_text_to_speech e t (path_stem pdf) audio_dir lang d m ?w1 =
        (Inr (joinpath audio_dir (path_stem pdf @ ''.mp3'')), ?w1)"
      by (simp add: convert_text_to_speech_def)
    with t False s have "process_pdf e pdf out_dir audio_dir lang d m w = (Inr (), ?w1)"
      by (simp add: process_pdf_def Let_def)
    moreover have "tts_log ?w1 = tts_log w" "sleeps ?w1 = sleeps w" by simp_all
    ultimately show ?thesis by blast
  qed
qed

lemma process_all_ok_settled:
  "process_all e a pdfs w = (Inr (), w') \<Longrightarrow>
   \<forall>pdf\<in>set pdfs. settled e (output_folder_path e a) (audio_folder_path e a) w' pdf"
proof (induction pdfs arbitrary: w)
  case Nil
  then show ?case by simp
next
  case (Cons pdf rest)
  obtain r1 w1 where step: "process_pdf e pdf (output_folder_path e a) (audio_folder_path e a)
      (language a) (retry_delay a) (max_retries a) w = (r1, w1)"
    by (cases "process_pdf e pdf (output_folder_path e a) (audio_folder_path e a)
      (language a) (retry_delay a) (max_retries a) w") blast
  from Cons.prems step have r1: "r1 = Inr ()" and tail: "process_all e a rest w1 = (Inr (), w')"
    by (cases r1; simp)+
  from step r1 have "settled e (output_folder_path e a) (audio_folder_path e a) w1 pdf"
    by (simp add: process_pdf_ok_settled)
  then have "settled e (output_folder_path e a) (audio_folder_path e a) w' pdf"
    using grows_process_all[OF tail] by (rule settled_grows)
  with Cons.IH[OF tail] show ?case by simp
qed

lemma process_all_settled_idle:
  "\<forall>pdf\<in>set pdfs. settled e (output_folder_path e a) (audio_folder_path e a) w pdf \<Longrightarrow>
   \<exists>w'. process_all e a pdfs w = (Inr (), w') \<and> tts_log w' = tts_log w \<and> sleeps w' = sleeps w"
proof (induction pdfs arbitrary: w)
  case Nil
  then show ?case by simp
next
  case (Cons pdf rest)
  from Cons.prems have "settled e (output_folder_path e a) (audio_folder_path e a) w pdf" by simp
  from process_pdf_settled_idle[OF this] obtain w1 where
    step: "process_pdf e pdf (output_folder_path e a) (audio_folder_path e a)
      (language a) (retry_delay a) (max_retries a) w = (Inr (), w1)"
    and same: "tts_log w1 = tts_log w" "sleeps w1 = sleeps w"
    by blast
  have "\<forall>p\<in>set rest. settled e (output_folder_path e a) (audio_folder_path e a) w1 p"
    using Cons.prems grows_process_pdf[OF step] by (auto intro: settled_grows)
  from Cons.IH[OF this] obtain w' where
    "process_all e a rest w1 = (Inr (), w')" "tts_log w' = tts_log w1" "sleeps w' = sleeps w1"
    by blast
  with step same show ?case by simp
qed

text \<open>
  Claim C7. Run the sequential pipeline, then run it again on the world the first run
  left. The second run calls the synthesis service for no document whose audio file is on
  disk after the first run: every call it logs has another target. And when the first run
  completed, the second completes too, with no call to the service and no sleep at all.
\<close>

theorem second_run_skips_existing_audio:
  assumes first_run: "main_sequential e a w0 = (r1, w1)"
    and second_run: "main_sequential e a w1 = (r2, w2)"
  shows "(\<exists>new. tts_log w2 = tts_log w1 @ new \<and>
            (\<forall>pdf\<in>set (glob_pdf e (input_folder a)).
               path_exists w1 (joinpath (audio_folder_path e a) (path_stem pdf @ ''.mp3'')) \<longrightarrow>
               (\<forall>c\<in>set new. snd (snd c) \<noteq> joinpath (audio_folder_path e a) (path_stem pdf @ ''.mp3'')))) \<and>
         (r1 = Inr () \<longrightarrow> r2 = Inr () \<and> tts_log w2 = tts_log w1 \<and> sleeps w2 = sleeps w1)"
proof
  from second_run have "grows w1 w2"
    unfolding main_sequential_def by (rule grows_process_all)
  then obtain new where new: "tts_log w2 = tts_log w1 @ new"
      "\<forall>c\<in>set new. \<not> path_exists w1 (snd (snd c))"
    unfolding grows_def by blast
  have "\<forall>pdf\<in>set (glob_pdf e (input_folder a)).
               path_exists w1 (joinpath (audio_folder_path e a) (path_stem pdf @ ''.mp3'')) \<longrightarrow>
               (\<forall>c\<in>set new. snd (snd c) \<noteq> joinpath (audio_folder_path e a) (path_stem pdf @ ''.mp3''))"
    using new(2) by auto
  with new(1) show "\<exists>new. tts_log w2 = tts_log w1 @ new \<and>
            (\<forall>pdf\<in>set (glob_pdf e (input_folder a)).
               path_exists w1 (joinpath (audio_folder_path e a) (path_stem pdf @ ''.mp3'')) \<longrightarrow>
               (\<forall>c\<in>set new. snd (snd c) \<noteq> joinpath (audio_folder_path e a) (path_stem pdf @ ''.mp3'')))"
    by blast
next
  show "r1 = Inr () \<longrightarrow> r2 = Inr () \<and> tts_log w2 = tts_log w1 \<and> sleeps w2 = sleeps w1"
  proof
    assume "r1 = Inr ()"
    with first_run have "process_all e a (glob_pdf e (input_folder a)) w0 = (Inr (), w1)"
      by (simp add: main_sequential_def)
    from process_all_settled_idle[OF process_all_ok_settled[OF this]] second_run
    show "r2 = Inr () \<and> tts_log w2 = tts_log w1 \<and> sleeps w2 = sleeps w1"
      by (auto simp: main_sequential_def)
  qed
qed

theorem second_run_skips_existing_audio_witness:
  "main_sequential (demo_env limited_twice) demo_arguments demo_world = (Inr (), demo_after_first_run) \<and>
   fst (main_sequential (demo_env limited_twice) demo_arguments demo_after_first_run) = Inr () \<and>
   tts_log (snd (main_sequential (demo_env limited_twice) demo_arguments demo_after_first_run)) =
     tts_log demo_after_first_run \<and>
   sleeps (snd (main_sequential (demo_env limited_twice) demo_arguments demo_after_first_run)) = [5, 10]"
proof -
  have g: "glob_pdf (demo_env limited_twice) (input_folder demo_arguments) =
      [[''in'', ''a.pdf''], [''in'', ''blank.pdf'']]"
    by (simp add: demo_env_def demo_arguments_def)
  have a: "process_pdf (demo_env limited_twice) [''in'', ''a.pdf''] [''out''] [''app'', ''audio''] ''en'' 5 10
      demo_world = (Inr (), demo_after_first_run)"
    by (simp add: process_pdf_def demo_extract_a demo_not_blank demo_stem demo_text_path
        demo_save_text Let_def convert_text_to_speech_def demo_default_audio_path path_exists_def
        demo_world_def retry_loop_numeral gtts_save_def py_sleep_def
        rate_limit_marker_def limited_def limited_twice_def demo_after_first_run_def
        demo_gtts)
  have b: "process_pdf (demo_env limited_twice) [''in'', ''blank.pdf''] [''out''] [''app'', ''audio''] ''en'' 5 10
      demo_after_first_run = (Inr (), demo_after_first_run)"
    by (simp add: process_pdf_def demo_extract_blank demo_blank)
  have folders: "output_folder_path (demo_env limited_twice) demo_arguments = [''out'']"
      "audio_folder_path (demo_env limited_twice) demo_arguments = [''app'', ''audio'']"
    by (simp_all add: output_folder_path_def audio_folder_path_def demo_arguments_def joinpath_plain
        demo_env_def)
  have options: "language demo_arguments = ''en''" "retry_delay demo_arguments = 5"
      "max_retries demo_arguments = 10"
    by (simp_all add: demo_arguments_def)
  have first_run: "main_sequential (demo_env limited_twice) demo_arguments demo_world =
      (Inr (), demo_after_first_run)"
    by (simp add: main_sequential_def g folders options a b)
  show ?thesis
    using second_run_skips_existing_audio [OF first_run prod.collapse [symmetric]] first_run
    by (simp add: demo_after_first_run_def)
qed

text \<open>
  A document that can be handled, with a service that answers every call and at least
  one attempt allowed: \<open>process_pdf\<close> returns, and the files afterwards are those before
  and the document's outputs.
\<close>

lemma process_pdf_clean:
  assumes service: "\<forall>n t l. \<exists>au. gtts e n t l = Saved au"
    and retries: "0 < m"
    and document: "readable_and_writable e out_dir pdf"
  shows "\<exists>w'. process_pdf e pdf out_dir audio_dir lang d m w = (Inr (), w') \<and>
           dom (files w') = dom (files w) \<union> unit_outputs e out_dir audio_dir pdf"
proof -
  from document obtain t where t: "extract_text_from_pdf_with_ocr e pdf = Inr t"
    and c: "py_strip t = [] \<or>
       (open_error e (joinpath out_dir (path_stem pdf @ ''.txt'')) = None \<and> \<not> list_ex is_surrogate t)"
    unfolding readable_and_writable_def by (auto split: sum.splits)
  show ?thesis
  proof (cases "py_strip t = []")
    case True
    with t show ?thesis by (simp add: process_pdf_def unit_outputs_def)
  next
    case False
    let ?tp = "joinpath out_dir (path_stem pdf @ ''.txt'')"
    let ?ap = "joinpath audio_dir (path_stem pdf @ ''.mp3'')"
    let ?w1 = "w\<lparr>files := (files w)(?tp \<mapsto> TextData t)\<rparr>"
    from False c have s: "save_text_to_file e t ?tp w = (Inr (), ?w1)"
      by (simp add: save_text_to_file_def)
    have outs: "unit_outputs e out_dir audio_dir pdf = {?tp, ?ap}"
      using t False by (simp add: unit_outputs_def)
    have "\<exists>w'. convert_text_to_speech e t (path_stem pdf) audio_dir lang d m ?w1 = (Inr ?ap, w') \<and>
        dom (files w') = insert ?ap (dom (files ?w1))"
    proof (cases "path_exists ?w1 ?ap")
      case True
      then have "convert_text_to_speech e t (path_stem pdf) audio_dir lang d m ?w1 = (Inr ?ap, ?w1)"
        by (simp add: convert_text_to_speech_def)
      moreover from True have "dom (files ?w1) = insert ?ap (dom (files ?w1))"
        unfolding path_exists_def by (metis domIff insert_absorb)
      ultimately show ?thesis by blast
    next
      case absent: False
      from retries obtain n where n: "nat m = Suc n" by (cases "nat m") simp_all
      from service obtain au where "gtts e (length (tts_log ?w1)) t lang = Saved au" by blast
      from retry_loop_success_step[OF this, of n ?ap d] absent n
      have "convert_text_to_speech e t (path_stem pdf) audio_dir lang d m ?w1 =
          (Inr ?ap, ?w1\<lparr>tts_log := tts_log ?w1 @ [(t, lang, ?ap)],
                         files := (files ?w1)(?ap \<mapsto> AudioData au)\<rparr>)"
        by (simp add: convert_text_to_speech_def Let_def)
      moreover have "dom (files (?w1\<lparr>tts_log := tts_log ?w1 @ [(t, lang, ?ap)],
                         files := (files ?w1)(?ap \<mapsto> AudioData au)\<rparr>)) = insert ?ap (dom (files ?w1))"
        by simp
      ultimately show ?thesis by blast
    qed
    then obtain w' where conv: "convert_text_to_speech e t (path_stem pdf) audio_dir lang d m ?w1 = (Inr ?ap, w')"
      and dm: "dom (files w') = insert ?ap (dom (files ?w1))" by blast
    from t False s conv have "process_pdf e pdf out_dir audio_dir lang d m w = (Inr (), w')"
      by (simp add: process_pdf_def Let_def)
    moreover from dm outs have "dom (files w') = dom (files w) \<union> unit_outputs e out_dir audio_dir pdf"
      by auto
    ultimately show ?thesis by blast
  qed
qed

lemma process_all_clean:
  assumes service: "\<forall>n t l. \<exists>au. gtts e n t l = Saved au"
    and retries: "0 < max_retries a"
  shows "\<forall>pdf\<in>set pdfs. readable_and_writable e (output_folder_path e a) pdf \<Longrightarrow>
     \<exists>w'. process_all e a pdfs w = (Inr (), w') \<and>
          dom (files w') = dom (files w) \<union>
            (\<Union>pdf\<in>set pdfs. unit_outputs e (output_folder_path e a) (audio_folder_path e a) pdf)"
proof (induction pdfs arbitrary: w)
  case Nil
  then show ?case by simp
next
  case (Cons pdf rest)
  from Cons.prems have "readable_and_writable e (output_folder_path e a) pdf" by simp
  from process_pdf_clean[OF service retries this] obtain w1 where
    step: "process_pdf e pdf (output_folder_path e a) (audio_folder_path e a)
      (language a) (retry_delay a) (max_retries a) w = (Inr (), w1)"
    and d1: "dom (files w1) = dom (files w) \<union>
      unit_outputs e (output_folder_path e a) (audio_folder_path e a) pdf"
    by blast
  from Cons.prems have "\<forall>p\<in>set rest. readable_and_writable e (output_folder_path e a) p" by simp
  from Cons.IH[OF this] obtain w' where
    tail: "process_all e a rest w1 = (Inr (), w')"
    and d2: "dom (files w') = dom (files w1) \<union>
      (\<Union>p\<in>set rest. unit_outputs e (output_folder_path e a) (audio_folder_path e a) p)"
    by blast
  from step tail have "process_all e a (pdf # rest) w = (Inr (), w')" by simp
  moreover from d1 d2 have "dom (files w') = dom (files w) \<union>
      (\<Union>p\<in>set (pdf # rest). unit_outputs e (output_folder_path e a) (audio_folder_path e a) p)"
    by auto
  ultimately show ?case by blast
qed

lemma run_units_clean:
  assumes service: "\<forall>n t l. \<exists>au. gtts e n t l = Saved au"
    and retries: "0 < max_retries a"
  shows "\<forall>pdf\<in>set pdfs. readable_and_writable e (output_folder_path e a) pdf \<Longrightarrow>
     \<exists>rs w'. run_units e a pdfs w = (rs, w') \<and> collect_results rs = Inr () \<and>
          dom (files w') = dom (files w) \<union>
            (\<Union>pdf\<in>set pdfs. unit_outputs e (output_folder_path e a) (audio_folder_path e a) pdf)"
proof (induction pdfs arbitrary: w)
  case Nil
  then show ?case by simp
next
  case (Cons pdf rest)
  from Cons.prems have "readable_and_writable e (output_folder_path e a) pdf" by simp
  from process_pdf_clean[OF service retries this] obtain w1 where
    step: "process_pdf e pdf (output_folder_path e a) (audio_folder_path e a)
      (language a) (retry_delay a) (max_retries a) w = (Inr (), w1)"
    and d1: "dom (files w1) = dom (files w) \<union>
      unit_outputs e (output_folder_path e a) (audio_folder_path e a) pdf"
    by blast
  from Cons.prems have "\<forall>p\<in>set rest. readable_and_writable e (output_folder_path e a) p" by simp
  from Cons.IH[OF this] obtain rs w' where
    tail: "run_units e a rest w1 = (rs, w')" "collect_results rs = Inr ()"
    and d2: "dom (files w') = dom (files w1) \<union>
      (\<Union>p\<in>set rest. unit_outputs e (output_folder_path e a) (audio_folder_path e a) p)"
    by blast
  from step tail have "run_units e a (pdf # rest) w = (Inr () # rs, w')"
    "collect_results (Inr () # rs) = Inr ()" by simp_all
  moreover from d1 d2 have "dom (files w') = dom (files w) \<union>
      (\<Union>p\<in>set (pdf # rest). unit_outputs e (output_folder_path e a) (audio_folder_path e a) p)"
    by auto
  ultimately show ?case by blast
qed

text \<open>
  Claim C8. The documents can all be read and their text files written, the service
  answers every call (no rate limit, no error) and at least one attempt is allowed. Then
  the sequential run and the parallel run, whatever the order in which the units of work
  complete, both end without an error and leave the same set of files: those that were
  there before, and for each document with text its text file and its audio file.
\<close>

theorem parallel_run_leaves_the_same_files:
  assumes order: "mset completion_order = mset (glob_pdf e (input_folder a))"
    and service: "\<forall>n t l. \<exists>au. gtts e n t l = Saved au"
    and retries: "0 < max_retries a"
    and documents: "\<forall>pdf\<in>set (glob_pdf e (input_folder a)).
        readable_and_writable e (output_folder_path e a) pdf"
  shows "fst (main_sequential e a w) = Inr () \<and>
         fst (main_parallel e a completion_order w) = Inr () \<and>
         dom (files (snd (main_parallel e a completion_order w))) =
           dom (files (snd (main_sequential e a w))) \<and>
         dom (files (snd (main_sequential e a w))) =
           dom (files w) \<union>
           (\<Union>pdf\<in>set (glob_pdf e (input_folder a)).
              unit_outputs e (output_folder_path e a) (audio_folder_path e a) pdf)"
proof -
  from order have same: "set completion_order = set (glob_pdf e (input_folder a))"
    by (rule mset_eq_setD)
  from process_all_clean[OF service retries documents, of w] obtain ws where
    seq: "process_all e a (glob_pdf e (input_folder a)) w = (Inr (), ws)"
    and ds: "dom (files ws) = dom (files w) \<union>
      (\<Union>pdf\<in>set (glob_pdf e (input_folder a)).
         unit_outputs e (output_folder_path e a) (audio_folder_path e a) pdf)"
    by blast
  from documents same have "\<forall>pdf\<in>set completion_order.
      readable_and_writable e (output_folder_path e a) pdf" by simp
  from run_units_clean[OF service retries this, of w] obtain rs wp where
    par: "run_units e a completion_order w = (rs, wp)" "collect_results rs = Inr ()"
    and dp: "dom (files wp) = dom (files w) \<union>
      (\<Union>pdf\<in>set completion_order.
         unit_outputs e (output_folder_path e a) (audio_folder_path e a) pdf)"
    by blast
  from seq have s: "main_sequential e a w = (Inr (), ws)" by (simp add: main_sequential_def)
  from par have p: "main_parallel e a completion_order w = (Inr (), wp)"
    by (simp add: main_parallel_def)
  from ds dp same have "dom (files wp) = dom (files ws)" by simp
  with s p ds show ?thesis by simp
qed

theorem parallel_run_leaves_the_same_files_witness:
  "fst (main_sequential (demo_env answering) demo_arguments demo_world) = Inr () \<and>
   fst (main_parallel (demo_env answering) demo_arguments [[''in'', ''blank.pdf''], [''in'', ''a.pdf'']]
          demo_world) = Inr () \<and>
   dom (files (snd (main_parallel (demo_env answering) demo_arguments
          [[''in'', ''blank.pdf''], [''in'', ''a.pdf'']] demo_world))) =
     dom (files (snd (main_sequential (demo_env answering) demo_arguments demo_world))) \<and>
   dom (files (snd (main_sequential (demo_env answering) demo_arguments demo_world))) =
     {[''out'', ''a.txt''], [''app'', ''audio'', ''a.mp3'']}"
proof -
  have g: "glob_pdf (demo_env answering) (input_folder demo_arguments) =
      [[''in'', ''a.pdf''], [''in'', ''blank.pdf'']]"
    by (simp add: demo_env_def demo_arguments_def)
  have folders: "output_folder_path (demo_env answering) demo_arguments = [''out'']"
      "audio_folder_path (demo_env answering) demo_arguments = [''app'', ''audio'']"
    by (simp_all add: output_folder_path_def audio_folder_path_def demo_arguments_def joinpath_plain
        demo_env_def)
  have order: "mset [[''in'', ''blank.pdf''], [''in'', ''a.pdf'']] =
      mset (glob_pdf (demo_env answering) (input_folder demo_arguments))"
    by (simp add: g)
  have service: "\<forall>n t l. \<exists>au. gtts (demo_env answering) n t l = Saved au"
    by (simp add: demo_gtts answering_def)
  have retries: "0 < max_retries demo_arguments"
    by (simp add: demo_arguments_def)
  have opens: "open_error (demo_env answering) p = None" for p
    by (simp add: demo_env_def)
  have documents: "\<forall>pdf\<in>set (glob_pdf (demo_env answering) (input_folder demo_arguments)).
        readable_and_writable (demo_env answering) (output_folder_path (demo_env answering) demo_arguments) pdf"
    by (simp add: g folders readable_and_writable_def demo_extract_a demo_extract_blank demo_blank
        opens is_surrogate_def)
  have outputs: "unit_outputs (demo_env answering) [''out''] [''app'', ''audio''] [''in'', ''a.pdf''] =
        {[''out'', ''a.txt''], [''app'', ''audio'', ''a.mp3'']}"
      "unit_outputs (demo_env answering) [''out''] [''app'', ''audio''] [''in'', ''blank.pdf''] = {}"
    by (simp_all add: unit_outputs_def demo_extract_a demo_extract_blank demo_blank demo_not_blank
        demo_stem demo_text_path demo_default_audio_path)
  show ?thesis
    using parallel_run_leaves_the_same_files [OF order service retries documents, of demo_world]
    by (simp add: g folders outputs demo_world_def)
qed

end
